theory Spec2Isabelle
  imports Main
begin

section \<open>JavaScript values and outcomes\<close>

text \<open>
  The three modules (\<^verbatim>\<open>inherit.js\<close>, \<^verbatim>\<open>schema.js\<close>, \<^verbatim>\<open>example.js\<close>) work on
  refracted MSON elements, which are plain JSON data and carry no static type. The
  model therefore uses one type of JavaScript values. An object is the list of its own
  properties in the order of their creation; a number is an integer (the code never
  computes with the numbers of the tree).

  Modelling assumptions, stated once:
  \<^item> the elements are plain JSON data: objects whose prototype is
    \<^verbatim>\<open>Object.prototype\<close>, arrays, strings, numbers, booleans, \<^verbatim>\<open>null\<close>; the properties
    that the code reads by a fixed name (\<^verbatim>\<open>element\<close>, \<^verbatim>\<open>content\<close>, \<^verbatim>\<open>meta\<close>, ...) are
    no members of any prototype, so such a read sees own properties only;
  \<^item> the symbol table \<^verbatim>\<open>dataStructures\<close> is a plain object, as its caller builds it
    (\<^verbatim>\<open>const dataStructures = {}\<close>, filled by assignment); it is read under names that
    come from the tree, and such a read also finds the members of
    \<^verbatim>\<open>Object.prototype\<close> (\<open>table_get\<close> below);
  \<^item> enumeration (\<^verbatim>\<open>for-in\<close>, \<^verbatim>\<open>Object.keys\<close>, \<^verbatim>\<open>JSON.stringify\<close>) visits the keys
    that are array indices first, in ascending order, and then the other keys in the
    order of their creation (\<open>js_order\<close> below);
  \<^item> an assignment \<^verbatim>\<open>x[key] = v\<close> creates or overwrites an own property (the key
    \<^verbatim>\<open>__proto__\<close>, which an assignment treats differently, is not told apart);
  \<^item> where the behaviour of JavaScript is not expressible on these values (an array
    that receives a named property, an array-like object, a property key that is a
    number, an array or an object, reference identity of two objects) the model stops
    with the outcome \<open>Unmodelled\<close>, so that no statement about a returned value or a
    thrown error is ever made for such an input.
\<close>

datatype jv =
    Undefined
  | Null
  | Bool bool
  | Num int
  | Str string
  | Arr "jv list"
  | Obj "(string \<times> jv) list"

datatype error = TypeError | ReferenceError | SyntaxError

text \<open>
  \<open>Return v\<close>: the call returns \<open>v\<close>. \<open>Throw e\<close>: the call throws. \<open>OutOfFuel\<close>: the
  recursion budget of the model ran out (the source may recurse or loop forever on a
  cyclic symbol table).
\<close>

datatype 'a outcome = Return 'a | Throw error | OutOfFuel | Unmodelled

fun bnd :: "'a outcome \<Rightarrow> ('a \<Rightarrow> 'b outcome) \<Rightarrow> 'b outcome" where
  "bnd (Return x) f = f x"
| "bnd (Throw e) f = Throw e"
| "bnd OutOfFuel f = OutOfFuel"
| "bnd Unmodelled f = Unmodelled"

subsection \<open>Primitive operations\<close>

text \<open>\<^verbatim>\<open>if (x)\<close>, \<^verbatim>\<open>x || y\<close>, \<^verbatim>\<open>!x\<close>: JavaScript truthiness.\<close>

fun truthy :: "jv \<Rightarrow> bool" where
  "truthy Undefined = False"
| "truthy Null = False"
| "truthy (Bool b) = b"
| "truthy (Num n) = (n \<noteq> 0)"
| "truthy (Str s) = (s \<noteq> [])"
| "truthy (Arr xs) = True"
| "truthy (Obj kvs) = True"

text \<open>\<^verbatim>\<open>x == null\<close>\<close>

fun nullish :: "jv \<Rightarrow> bool" where
  "nullish Undefined = True"
| "nullish Null = True"
| "nullish v = False"

text \<open>Reading an own property of an object: \<^verbatim>\<open>undefined\<close> when absent.\<close>

definition lookup :: "(string \<times> jv) list \<Rightarrow> string \<Rightarrow> jv" where
  "lookup kvs k = (case map_of kvs k of None \<Rightarrow> Undefined | Some v \<Rightarrow> v)"

text \<open>
  Writing an own property of a plain object: an existing key keeps its position, a new
  key goes to the end.
\<close>

fun put :: "(string \<times> 'v) list \<Rightarrow> string \<Rightarrow> 'v \<Rightarrow> (string \<times> 'v) list" where
  "put [] k v = [(k, v)]"
| "put ((k', v') # kvs) k v = (if k' = k then (k, v) # kvs else (k', v') # put kvs k v)"

text \<open>
  \<^verbatim>\<open>x.name\<close> for the names the source reads (\<^verbatim>\<open>element\<close>, \<^verbatim>\<open>content\<close>, \<^verbatim>\<open>meta\<close>,
  \<^verbatim>\<open>attributes\<close>, \<^verbatim>\<open>key\<close>, \<^verbatim>\<open>value\<close>, \<^verbatim>\<open>href\<close>, \<^verbatim>\<open>description\<close>, \<^verbatim>\<open>default\<close>,
  \<^verbatim>\<open>typeAttributes\<close>, \<^verbatim>\<open>properties\<close>, \<^verbatim>\<open>type\<close>, \<^verbatim>\<open>allOf\<close>): a TypeError on
  \<^verbatim>\<open>undefined\<close> and \<^verbatim>\<open>null\<close>, \<^verbatim>\<open>undefined\<close> on booleans, numbers, strings and
  arrays, which have none of these properties.
\<close>

fun get :: "jv \<Rightarrow> string \<Rightarrow> jv outcome" where
  "get Undefined k = Throw TypeError"
| "get Null k = Throw TypeError"
| "get (Obj kvs) k = Return (lookup kvs k)"
| "get v k = Return Undefined"

text \<open>
  \<^verbatim>\<open>x[k] = v\<close> and \<^verbatim>\<open>x.k = v\<close> in sloppy mode (the modules do not opt into strict
  mode): a TypeError on \<^verbatim>\<open>undefined\<close> and \<^verbatim>\<open>null\<close>, silently ignored on a boolean,
  number or string.
\<close>

fun set_field :: "jv \<Rightarrow> string \<Rightarrow> jv \<Rightarrow> jv outcome" where
  "set_field Undefined k v = Throw TypeError"
| "set_field Null k v = Throw TypeError"
| "set_field (Obj kvs) k v = Return (Obj (put kvs k v))"
| "set_field (Arr xs) k v = Unmodelled"
| "set_field x k v = Return x"

text \<open>
  A value used as a property key (\<^verbatim>\<open>dataStructures[root.element]\<close>, \<^verbatim>\<open>obj[key]\<close>) is
  converted to a string.
\<close>

fun to_key :: "jv \<Rightarrow> string outcome" where
  "to_key (Str s) = Return s"
| "to_key Undefined = Return ''undefined''"
| "to_key Null = Return ''null''"
| "to_key (Bool b) = Return (if b then ''true'' else ''false'')"
| "to_key v = Unmodelled"

text \<open>\<^verbatim>\<open>Array.from(x)\<close>\<close>

fun array_from :: "jv \<Rightarrow> jv list outcome" where
  "array_from Undefined = Throw TypeError"
| "array_from Null = Throw TypeError"
| "array_from (Arr xs) = Return xs"
| "array_from (Str s) = Return (map (\<lambda>c. Str [c]) s)"
| "array_from (Bool b) = Return []"
| "array_from (Num n) = Return []"
| "array_from (Obj kvs) = (if map_of kvs ''length'' = None then Return [] else Unmodelled)"

text \<open>\<^verbatim>\<open>x || []\<close>\<close>

definition or_empty :: "jv \<Rightarrow> jv" where
  "or_empty x = (if truthy x then x else Arr [])"

text \<open>\<^verbatim>\<open>x.length\<close>\<close>

fun length_of :: "jv \<Rightarrow> jv outcome" where
  "length_of Undefined = Throw TypeError"
| "length_of Null = Throw TypeError"
| "length_of (Arr xs) = Return (Num (int (length xs)))"
| "length_of (Str s) = Return (Num (int (length s)))"
| "length_of (Obj kvs) = Return (lookup kvs ''length'')"
| "length_of v = Return Undefined"

text \<open>\<^verbatim>\<open>xs[i]\<close> on an array: \<^verbatim>\<open>undefined\<close> out of range.\<close>

definition nth_js :: "jv list \<Rightarrow> nat \<Rightarrow> jv" where
  "nth_js xs i = (if i < length xs then xs ! i else Undefined)"

text \<open>\<^verbatim>\<open>x[0]\<close>\<close>

fun index0 :: "jv \<Rightarrow> jv outcome" where
  "index0 Undefined = Throw TypeError"
| "index0 Null = Throw TypeError"
| "index0 (Arr xs) = Return (nth_js xs 0)"
| "index0 (Str s) = Return (case s of [] \<Rightarrow> Undefined | c # cs \<Rightarrow> Str [c])"
| "index0 (Obj kvs) = Return (lookup kvs ''0'')"
| "index0 v = Return Undefined"

text \<open>
  \<^verbatim>\<open>x.slice(0)\<close>: a copy of an array; a string stays a string, read afterwards by index,
  that is, as the list of its characters; anything else has no function \<^verbatim>\<open>slice\<close>.
\<close>

fun slice0 :: "jv \<Rightarrow> jv list outcome" where
  "slice0 (Arr xs) = Return xs"
| "slice0 (Str s) = Return (map (\<lambda>c. Str [c]) s)"
| "slice0 v = Throw TypeError"

text \<open>
  \<^verbatim>\<open>[i, 1].concat(x)\<close>, the arguments of \<^verbatim>\<open>splice\<close> after the first two: the
  elements of \<open>x\<close> when it is an array, the single value \<open>x\<close> otherwise.
\<close>

fun concat_arg :: "jv \<Rightarrow> jv list" where
  "concat_arg (Arr xs) = xs"
| "concat_arg v = [v]"

text \<open>
  \<^verbatim>\<open>typeAttr.indexOf(s) !== -1\<close> for a string \<open>s\<close>: membership in an array (by
  \<^verbatim>\<open>===\<close>), a substring test on a string; anything else has no function \<^verbatim>\<open>indexOf\<close>.
\<close>

fun is_substring :: "string \<Rightarrow> string \<Rightarrow> bool" where
  "is_substring s [] = (s = [])"
| "is_substring s (c # cs) = (take (length s) (c # cs) = s \<or> is_substring s cs)"

fun includes_string :: "jv \<Rightarrow> string \<Rightarrow> bool outcome" where
  "includes_string (Arr xs) s = Return (Str s \<in> set xs)"
| "includes_string (Str t) s = Return (is_substring s t)"
| "includes_string v s = Throw TypeError"

text \<open>
  \<^verbatim>\<open>known.indexOf(key) !== -1\<close>: \<^verbatim>\<open>===\<close> is equality of values on primitives and
  identity on arrays and objects, which these values do not carry.
\<close>

fun is_primitive :: "jv \<Rightarrow> bool" where
  "is_primitive (Arr xs) = False"
| "is_primitive (Obj kvs) = False"
| "is_primitive v = True"

definition includes_value :: "jv list \<Rightarrow> jv \<Rightarrow> bool outcome" where
  "includes_value known key = (if is_primitive key then Return (key \<in> set known) else Unmodelled)"

text \<open>
  The order of enumeration of the own properties of an object. A key is an array index
  when it is the canonical decimal form of a number below \<^verbatim>\<open>2^32 - 1\<close>; these keys
  come first, in ascending numeric order, the others follow in the order of their
  creation.
\<close>

definition is_digit :: "char \<Rightarrow> bool" where
  "is_digit c = (c \<in> set ''0123456789'')"

definition digit_value :: "char \<Rightarrow> nat" where
  "digit_value c = length (takeWhile (\<lambda>d. d \<noteq> c) ''0123456789'')"

definition decimal :: "string \<Rightarrow> nat" where
  "decimal s = foldl (\<lambda>n c. 10 * n + digit_value c) 0 s"

definition is_index :: "string \<Rightarrow> bool" where
  "is_index k = (k \<noteq> [] \<and> list_all is_digit k \<and> (k = ''0'' \<or> hd k \<noteq> CHR ''0'')
                 \<and> decimal k < 4294967295)"

definition js_order :: "(string \<times> 'v) list \<Rightarrow> (string \<times> 'v) list" where
  "js_order kvs =
     sort_key (\<lambda>kv. decimal (fst kv)) (filter (\<lambda>kv. is_index (fst kv)) kvs)
     @ filter (\<lambda>kv. \<not> is_index (fst kv)) kvs"

text \<open>
  \<^verbatim>\<open>dataStructures[name]\<close>: the symbol table is a plain object, so a name that is no
  own property is looked up in \<^verbatim>\<open>Object.prototype\<close>. Its members are functions, but
  for the accessor \<^verbatim>\<open>__proto__\<close>, which yields \<^verbatim>\<open>Object.prototype\<close> itself. What the
  code does with such a value is all that the model keeps of it: it is truthy, it has no
  property \<^verbatim>\<open>content\<close>, \<^verbatim>\<open>JSON.stringify\<close> of a function is \<^verbatim>\<open>undefined\<close>, and
  \<^verbatim>\<open>JSON.stringify(Object.prototype)\<close> is \<^verbatim>\<open>"{}"\<close>.
\<close>

datatype 'v entry = Own 'v | Inherited_function | Object_prototype

definition prototype_functions :: "string list" where
  "prototype_functions =
     [''constructor'', ''hasOwnProperty'', ''isPrototypeOf'', ''propertyIsEnumerable'',
      ''toLocaleString'', ''toString'', ''valueOf'', ''__defineGetter__'', ''__defineSetter__'',
      ''__lookupGetter__'', ''__lookupSetter__'']"

definition table_get :: "(string \<times> jv) list \<Rightarrow> string \<Rightarrow> jv entry" where
  "table_get dataStructures name =
     (case map_of dataStructures name of
        Some v \<Rightarrow> Own v
      | None \<Rightarrow>
          if name = ''__proto__'' then Object_prototype
          else if name \<in> set prototype_functions then Inherited_function
          else Own Undefined)"

text \<open>\<^verbatim>\<open>if (ref)\<close> and \<^verbatim>\<open>ref.content\<close> for the value of such a lookup.\<close>

fun entry_truthy :: "jv entry \<Rightarrow> bool" where
  "entry_truthy (Own ref) = truthy ref"
| "entry_truthy Inherited_function = True"
| "entry_truthy Object_prototype = True"

fun entry_content :: "jv entry \<Rightarrow> jv outcome" where
  "entry_content (Own ref) = get ref ''content''"
| "entry_content Inherited_function = Return Undefined"
| "entry_content Object_prototype = Return Undefined"

text \<open>
  \<^verbatim>\<open>JSON.parse(JSON.stringify(x))\<close>: a property whose value is \<^verbatim>\<open>undefined\<close> is dropped,
  an \<^verbatim>\<open>undefined\<close> array entry becomes \<^verbatim>\<open>null\<close>, the properties of an object are
  written out in the order of enumeration and created in that order, and
  \<^verbatim>\<open>JSON.stringify(undefined)\<close> is \<^verbatim>\<open>undefined\<close>, which \<^verbatim>\<open>JSON.parse\<close> rejects with
  a SyntaxError.
\<close>

fun json_copy :: "jv \<Rightarrow> jv"
  and json_copy_list :: "jv list \<Rightarrow> jv list"
  and json_copy_props :: "(string \<times> jv) list \<Rightarrow> (string \<times> jv) list" where
  "json_copy (Arr xs) = Arr (json_copy_list xs)"
| "json_copy (Obj kvs) = Obj (js_order (json_copy_props kvs))"
| "json_copy Undefined = Undefined"
| "json_copy Null = Null"
| "json_copy (Bool b) = Bool b"
| "json_copy (Num n) = Num n"
| "json_copy (Str s) = Str s"
| "json_copy_list [] = []"
| "json_copy_list (x # xs) = (if x = Undefined then Null else json_copy x) # json_copy_list xs"
| "json_copy_props [] = []"
| "json_copy_props ((k, v) # kvs) =
     (if v = Undefined then json_copy_props kvs else (k, json_copy v) # json_copy_props kvs)"

definition deep_copy :: "jv \<Rightarrow> jv outcome" where
  "deep_copy x = (if x = Undefined then Throw SyntaxError else Return (json_copy x))"

text \<open>
  \<^verbatim>\<open>Object.keys(x)\<close> together with the reads \<^verbatim>\<open>x[key]\<close> that follow it: the own
  enumerable properties, in the order of enumeration. Booleans and numbers have none;
  the index keys of a non-empty string or array are not modelled.
\<close>

fun own_entries :: "jv \<Rightarrow> (string \<times> jv) list outcome" where
  "own_entries Undefined = Throw TypeError"
| "own_entries Null = Throw TypeError"
| "own_entries (Obj kvs) = Return (js_order kvs)"
| "own_entries (Bool b) = Return []"
| "own_entries (Num n) = Return []"
| "own_entries (Str s) = (if s = [] then Return [] else Unmodelled)"
| "own_entries (Arr xs) = (if xs = [] then Return [] else Unmodelled)"

section \<open>inherit.js\<close>

text \<open>
  \<^verbatim>\<open>uniqueMembers(content)\<close>: the loop runs \<open>i\<close> from the last index down. A member
  whose key is already known is removed by \<^verbatim>\<open>content.splice(i, 1)\<close>, and the loop
  continues \<^emph>\<open>without\<close> decrementing \<open>i\<close>. Reading \<^verbatim>\<open>content[i].element\<close> at an index
  that no longer exists throws a TypeError. The function mutates \<open>content\<close> in place;
  the model returns the mutated array.
\<close>

definition splice1 :: "'a list \<Rightarrow> nat \<Rightarrow> 'a list" where
  "splice1 content i = take i content @ drop (Suc i) content"

text \<open>One iteration of the \<^verbatim>\<open>while\<close> loop: the next \<open>content\<close>, \<open>i\<close> and \<open>known\<close>.\<close>

definition uniqueMembers_step ::
  "jv list \<Rightarrow> int \<Rightarrow> jv list \<Rightarrow> (jv list \<times> int \<times> jv list) outcome" where
  "uniqueMembers_step content i known =
     bnd (get (nth_js content (nat i)) ''element'') (\<lambda>e.
       if e = Str ''member'' then
         bnd (get (nth_js content (nat i)) ''content'') (\<lambda>c.
         bnd (get c ''key'') (\<lambda>k.
         bnd (get k ''content'') (\<lambda>key.
         bnd (includes_value known key) (\<lambda>found.
           if found then Return (splice1 content (nat i), i, known)
           else Return (content, i - 1, known @ [key])))))
       else Return (content, i - 1, known))"

function uniqueMembers_loop :: "jv list \<Rightarrow> int \<Rightarrow> jv list \<Rightarrow> jv list outcome" where
  "uniqueMembers_loop content i known =
     (if i \<ge> 0 then
        (case uniqueMembers_step content i known of
           Return (content', i', known') \<Rightarrow> uniqueMembers_loop content' i' known'
         | Throw e \<Rightarrow> Throw e
         | OutOfFuel \<Rightarrow> OutOfFuel
         | Unmodelled \<Rightarrow> Unmodelled)
      else Return content)"
  by pat_completeness auto
termination
proof (relation "measure (\<lambda>(content, i, known). length content + nat (i + 1))", goal_cases)
  case 1
  show ?case by simp
next
  case (2 content i known r content' rest i' known')
  have step: "uniqueMembers_step content i known = Return (content', i', known')"
    using 2 by simp
  have in_range: "nat i < length content"
  proof (rule ccontr)
    assume "\<not> nat i < length content"
    then have "nth_js content (nat i) = Undefined" by (simp add: nth_js_def)
    with step show False by (simp add: uniqueMembers_step_def)
  qed
  have "(content' = splice1 content (nat i) \<and> i' = i) \<or> (content' = content \<and> i' = i - 1)"
  proof (cases "get (nth_js content (nat i)) ''element''")
    case (Return e)
    show ?thesis
    proof (cases "e = Str ''member''")
      case False
      with Return step show ?thesis by (simp add: uniqueMembers_step_def)
    next
      case True
      show ?thesis
      proof (cases "get (nth_js content (nat i)) ''content''")
        case c: (Return c)
        show ?thesis
        proof (cases "get c ''key''")
          case k: (Return k)
          show ?thesis
          proof (cases "get k ''content''")
            case key: (Return key)
            show ?thesis
            proof (cases "includes_value known key")
              case found: (Return found)
              with Return True c k key step show ?thesis
                by (cases found) (auto simp: uniqueMembers_step_def)
            qed (use Return True c k key step in \<open>simp_all add: uniqueMembers_step_def\<close>)
          qed (use Return True c k step in \<open>simp_all add: uniqueMembers_step_def\<close>)
        qed (use Return True c step in \<open>simp_all add: uniqueMembers_step_def\<close>)
      qed (use Return True step in \<open>simp_all add: uniqueMembers_step_def\<close>)
    qed
  qed (use step in \<open>simp_all add: uniqueMembers_step_def\<close>)
  with in_range 2(1) show ?case by (auto simp: splice1_def)
qed

definition uniqueMembers :: "jv \<Rightarrow> jv outcome" where
  "uniqueMembers content =
     (case content of
        Arr xs \<Rightarrow> bnd (uniqueMembers_loop xs (int (length xs) - 1) []) (\<lambda>ys. Return (Arr ys))
      | _ \<Rightarrow> Unmodelled)"

text \<open>
  The merge of \<^verbatim>\<open>meta\<close> and of \<^verbatim>\<open>attributes\<close> (the two blocks differ in the field
  name only):
  \<^verbatim>\<open>
  if (element.meta) {
    if (combined.meta == null) { combined.meta = {}; }
    for (key of Object.keys(element.meta || {})) {
      value = element.meta[key];
      combined.meta[key] = value;
    }
  }
  \<close>
\<close>

fun copy_entries :: "string \<Rightarrow> (string \<times> jv) list \<Rightarrow> jv \<Rightarrow> jv outcome" where
  "copy_entries f [] combined = Return combined"
| "copy_entries f ((key, val) # kvs) combined =
     bnd (get combined f) (\<lambda>cm.
     bnd (set_field cm key val) (\<lambda>cm'.
     bnd (set_field combined f cm') (\<lambda>combined'.
       copy_entries f kvs combined')))"

definition inherit_field :: "string \<Rightarrow> jv \<Rightarrow> jv \<Rightarrow> jv outcome" where
  "inherit_field f combined element =
     bnd (get element f) (\<lambda>em.
       if truthy em then
         bnd (get combined f) (\<lambda>cm.
         bnd (if nullish cm then set_field combined f (Obj []) else Return combined) (\<lambda>combined1.
         bnd (own_entries em) (\<lambda>kvs.
           copy_entries f kvs combined1)))
       else Return combined)"

text \<open>
  \<^verbatim>\<open>x != null ? x.push : undefined\<close> as a condition: an array has the function
  \<^verbatim>\<open>push\<close>; a plain object only an own property of that name.
\<close>

fun has_push :: "jv \<Rightarrow> bool" where
  "has_push (Arr xs) = True"
| "has_push (Obj kvs) = truthy (lookup kvs ''push'')"
| "has_push v = False"

text \<open>\<^verbatim>\<open>for (let item of items) { combined.content.push(item); }\<close>\<close>

fun push_all :: "jv \<Rightarrow> jv list \<Rightarrow> jv outcome" where
  "push_all combined [] = Return combined"
| "push_all combined (item # items) =
     bnd (get combined ''content'') (\<lambda>cc.
       case cc of
         Arr ys \<Rightarrow> bnd (set_field combined ''content'' (Arr (ys @ [item]))) (\<lambda>combined'.
                     push_all combined' items)
       | _ \<Rightarrow> Throw TypeError)"

text \<open>
  The content block of \<^verbatim>\<open>inherit\<close>. Its \<^verbatim>\<open>else\<close> branch assigns to
  \<^verbatim>\<open>combine.content\<close>; no variable \<^verbatim>\<open>combine\<close> is declared anywhere, so evaluating
  the assignment throws a ReferenceError.
\<close>

definition inherit_content :: "jv \<Rightarrow> jv \<Rightarrow> jv outcome" where
  "inherit_content combined element =
     bnd (get element ''content'') (\<lambda>ec.
       if truthy ec then
         bnd (get combined ''content'') (\<lambda>cc.
           if has_push cc \<or> has_push ec then
             bnd (if nullish cc then set_field combined ''content'' (Arr []) else Return combined)
               (\<lambda>combined1.
             bnd (array_from ec) (\<lambda>items.
             bnd (push_all combined1 items) (\<lambda>combined2.
             bnd (get combined2 ''content'') (\<lambda>cc2.
             bnd (length_of cc2) (\<lambda>len.
               if truthy len then
                 bnd (index0 cc2) (\<lambda>first.
                 bnd (get first ''element'') (\<lambda>e.
                   if e = Str ''member'' then
                     bnd (uniqueMembers cc2) (\<lambda>cc3. set_field combined2 ''content'' cc3)
                   else Return combined2))
               else Return combined2)))))
           else Throw ReferenceError)
       else Return combined)"

text \<open>\<^verbatim>\<open>module.exports = function(base, element)\<close>\<close>

definition inherit :: "jv \<Rightarrow> jv \<Rightarrow> jv outcome" where
  "inherit base element =
     bnd (deep_copy base) (\<lambda>combined.
     bnd (inherit_field ''meta'' combined element) (\<lambda>combined1.
     bnd (inherit_field ''attributes'' combined1 element) (\<lambda>combined2.
       inherit_content combined2 element)))"

text \<open>
  \<^verbatim>\<open>inherit(ref, root)\<close> for the value \<open>ref\<close> of a lookup in the symbol table. The first
  statement is \<^verbatim>\<open>JSON.parse(JSON.stringify(base))\<close>: a SyntaxError for a function;
  the empty object for \<^verbatim>\<open>Object.prototype\<close>, which has no enumerable property.
\<close>

fun inherit_entry :: "jv entry \<Rightarrow> jv \<Rightarrow> jv outcome" where
  "inherit_entry (Own base) element = inherit base element"
| "inherit_entry Inherited_function element = Throw SyntaxError"
| "inherit_entry Object_prototype element = inherit (Obj []) element"

subsection \<open>The deduplication that the comment describes\<close>

text \<open>
  The comment above \<^verbatim>\<open>uniqueMembers\<close> reads: make sure all members are unique,
  removing all duplicates before the last occurrence of the member key name. The
  following definitions say that in the words of the comment, for comparison with the
  loop. \<open>member_key x\<close> reads an entry as the loop does: the key of a member, \<open>None\<close> for
  an entry that is not a member. An entry is \<open>overridden\<close> by the entries after it when
  one of them is a member with the same key; \<open>keep_last\<close> removes the overridden
  entries. A list is \<open>harmless\<close> when every overridden entry is directly followed by an
  entry that is not a member: then the element that \<^verbatim>\<open>splice\<close> moves to index \<open>i\<close> is not
  a member, and looking at index \<open>i\<close> again does nothing but decrement \<open>i\<close>.
\<close>

definition member_key :: "jv \<Rightarrow> jv option outcome" where
  "member_key x =
     bnd (get x ''element'') (\<lambda>e.
       if e = Str ''member'' then
         bnd (get x ''content'') (\<lambda>c.
         bnd (get c ''key'') (\<lambda>k.
         bnd (get k ''content'') (\<lambda>key. Return (Some key))))
       else Return None)"

definition overridden :: "jv \<Rightarrow> jv list \<Rightarrow> bool" where
  "overridden x later =
     (case member_key x of
        Return (Some key) \<Rightarrow> list_ex (\<lambda>y. member_key y = Return (Some key)) later
      | _ \<Rightarrow> False)"

fun keep_last :: "jv list \<Rightarrow> jv list" where
  "keep_last [] = []"
| "keep_last (x # xs) = (if overridden x xs then keep_last xs else x # keep_last xs)"

fun harmless :: "jv list \<Rightarrow> bool" where
  "harmless [] = True"
| "harmless (x # xs) =
     ((if overridden x xs then (case xs of [] \<Rightarrow> False | y # ys \<Rightarrow> member_key y = Return None)
       else True) \<and> harmless xs)"

definition entry_ok :: "jv \<Rightarrow> bool" where
  "entry_ok x =
     (case member_key x of
        Return None \<Rightarrow> True
      | Return (Some key) \<Rightarrow> is_primitive key
      | _ \<Rightarrow> False)"

section \<open>schema.js\<close>

text \<open>\<^verbatim>\<open>x != null ? x.f : undefined\<close>\<close>

definition opt_get :: "jv \<Rightarrow> string \<Rightarrow> jv outcome" where
  "opt_get x f = (if nullish x then Return Undefined else get x f)"

text \<open>
  \<^verbatim>\<open>renderSchema\<close> starts from \<^verbatim>\<open>schema = {}\<close> and always returns a plain object:
  the model returns the list of its properties, in the order of their creation.
\<close>

type_synonym schema = "(string \<times> jv) list"

subsection \<open>Node's \<^verbatim>\<open>assert.deepEqual\<close>\<close>

text \<open>
  \<^verbatim>\<open>deepEqual\<close> is imported from Node's \<^verbatim>\<open>assert\<close> module (line 14 of
  \<^verbatim>\<open>schema.js\<close>); it is no code of the repository. To the renderer it is a parameter
  \<open>deq\<close>: \<open>deq l r\<close> is \<open>Return True\<close> when \<^verbatim>\<open>deepEqual(l, r)\<close> returns and \<open>Return False\<close>
  when it throws its AssertionError. The function \<open>deepEqual\<close> below is that comparison
  on JSON values, after the documentation of Node (legacy mode, not
  \<^verbatim>\<open>deepStrictEqual\<close>): primitive values are compared with \<^verbatim>\<open>==\<close>; a primitive value
  is never equal to an array or an object; two arrays are equal when they have the same
  length and equal entries; two objects are equal when they have the same own keys, in
  any order, and equal values under each key. The comparison of an array with an
  object has changed between the versions of Node that run the code and is not
  modelled.

  \<^verbatim>\<open>==\<close> on primitive values: \<^verbatim>\<open>null\<close> and \<^verbatim>\<open>undefined\<close> are equal to each other and
  to nothing else; two strings are compared as strings; otherwise both sides are
  converted to numbers. \<open>string_number s\<close> is the number that the string \<open>s\<close> converts
  to, for the strings that the model decides: the empty string is 0, an optional minus
  sign and up to 15 digits is that integer, a string of letters only is no integer
  (\<^verbatim>\<open>NaN\<close> or \<^verbatim>\<open>Infinity\<close>, the result \<open>None\<close>).
\<close>

definition is_letter :: "char \<Rightarrow> bool" where
  "is_letter c = (c \<in> set ''abcdefghijklmnopqrstuvwxyzABCDEFGHIJKLMNOPQRSTUVWXYZ'')"

definition string_number :: "string \<Rightarrow> int option outcome" where
  "string_number s =
     (if s = [] then Return (Some 0)
      else if list_all is_digit s \<and> length s \<le> 15 then Return (Some (int (decimal s)))
      else if hd s = CHR ''-'' \<and> tl s \<noteq> [] \<and> list_all is_digit (tl s) \<and> length s \<le> 16
        then Return (Some (- int (decimal (tl s))))
      else if list_all is_letter s then Return None
      else Unmodelled)"

fun to_number :: "jv \<Rightarrow> int option outcome" where
  "to_number (Num n) = Return (Some n)"
| "to_number (Bool b) = Return (Some (if b then 1 else 0))"
| "to_number (Str s) = string_number s"
| "to_number v = Unmodelled"

fun loose_equal :: "jv \<Rightarrow> jv \<Rightarrow> bool outcome" where
  "loose_equal (Str s) (Str t) = Return (s = t)"
| "loose_equal a b =
     (if nullish a \<or> nullish b then Return (nullish a \<and> nullish b)
      else bnd (to_number a) (\<lambda>x. bnd (to_number b) (\<lambda>y. Return (x \<noteq> None \<and> x = y))))"

fun deepEqual :: "jv \<Rightarrow> jv \<Rightarrow> bool outcome"
  and deepEqual_list :: "jv list \<Rightarrow> jv list \<Rightarrow> bool outcome"
  and deepEqual_props :: "(string \<times> jv) list \<Rightarrow> (string \<times> jv) list \<Rightarrow> bool outcome" where
  "deepEqual (Arr xs) (Arr ys) =
     (if length xs = length ys then deepEqual_list xs ys else Return False)"
| "deepEqual (Obj kvs) (Obj kvs') =
     (if set (map fst kvs) = set (map fst kvs') then deepEqual_props kvs kvs' else Return False)"
| "deepEqual (Arr xs) (Obj kvs') = Unmodelled"
| "deepEqual (Obj kvs) (Arr ys) = Unmodelled"
| "deepEqual (Arr xs) b = Return False"
| "deepEqual (Obj kvs) b = Return False"
| "deepEqual a (Arr ys) = Return False"
| "deepEqual a (Obj kvs') = Return False"
| "deepEqual a b = loose_equal a b"
| "deepEqual_list [] ys = Return True"
| "deepEqual_list (x # xs) [] = Return True"
| "deepEqual_list (x # xs) (y # ys) =
     bnd (deepEqual x y) (\<lambda>equal. if equal then deepEqual_list xs ys else Return False)"
| "deepEqual_props [] kvs' = Return True"
| "deepEqual_props ((k, v) # kvs) kvs' =
     bnd (deepEqual v (lookup kvs' k)) (\<lambda>equal.
       if equal then deepEqual_props kvs kvs' else Return False)"

text \<open>
  A value in which no object lists a key twice (every object of JavaScript is one);
  \<open>deepEqual\<close> accepts such a value against itself.
\<close>

fun distinct_keys :: "jv \<Rightarrow> bool"
  and distinct_keys_list :: "jv list \<Rightarrow> bool"
  and distinct_keys_props :: "(string \<times> jv) list \<Rightarrow> bool" where
  "distinct_keys (Arr xs) = distinct_keys_list xs"
| "distinct_keys (Obj kvs) = (distinct (map fst kvs) \<and> distinct_keys_props kvs)"
| "distinct_keys v = True"
| "distinct_keys_list [] = True"
| "distinct_keys_list (x # xs) = (distinct_keys x \<and> distinct_keys_list xs)"
| "distinct_keys_props [] = True"
| "distinct_keys_props ((k, v) # kvs) = (distinct_keys v \<and> distinct_keys_props kvs)"

subsection \<open>The cases of \<^verbatim>\<open>renderSchema\<close>\<close>

text \<open>
  \<^verbatim>\<open>items.reduce((l, r) => deepEqual(l, r) || r)\<close> from the accumulator \<open>l\<close> over the
  remaining items: \<^verbatim>\<open>deepEqual\<close> returns \<^verbatim>\<open>undefined\<close>, so the accumulator becomes
  \<open>r\<close>; \<open>None\<close> when \<^verbatim>\<open>deepEqual\<close> throws.
\<close>

fun reduce_items :: "('a \<Rightarrow> 'a \<Rightarrow> bool outcome) \<Rightarrow> 'a \<Rightarrow> 'a list \<Rightarrow> 'a option outcome" where
  "reduce_items deq l [] = Return (Some l)"
| "reduce_items deq l (r # rs) =
     bnd (deq l r) (\<lambda>equal. if equal then reduce_items deq r rs else Return None)"

text \<open>
  The \<^verbatim>\<open>array\<close> case after the children are rendered:
  \<^verbatim>\<open>
  if (items.length === 1) { schema.items = items[0]; }
  else if (items.length > 1) {
    try { schema.items = items.reduce((l, r) => deepEqual(l, r) || r); }
    catch (error) { schema.items = { anyOf: items }; }
  }
  \<close>
\<close>

definition array_schema :: "(jv \<Rightarrow> jv \<Rightarrow> bool outcome) \<Rightarrow> jv list \<Rightarrow> schema outcome" where
  "array_schema deq items =
     (if length items = 1 then Return [(''type'', Str ''array''), (''items'', items ! 0)]
      else if length items > 1 then
        bnd (reduce_items deq (hd items) (tl items)) (\<lambda>reduced.
          case reduced of
            Some it \<Rightarrow> Return [(''type'', Str ''array''), (''items'', it)]
          | None \<Rightarrow> Return [(''type'', Str ''array''), (''items'', Obj [(''anyOf'', Arr items)])])
      else Return [(''type'', Str ''array'')])"

text \<open>\<^verbatim>\<open>for (item of items) { out.push(render(item)); }\<close>, stopping at the first throw.\<close>

fun render_all :: "(jv \<Rightarrow> schema outcome) \<Rightarrow> jv list \<Rightarrow> jv list outcome" where
  "render_all render [] = Return []"
| "render_all render (item # items) =
     bnd (render item) (\<lambda>s.
     bnd (render_all render items) (\<lambda>ss. Return (Obj s # ss)))"

text \<open>\<^verbatim>\<open>for (var item of items) { schema.enum.push(item.content); }\<close>\<close>

fun enum_values :: "jv list \<Rightarrow> jv list outcome" where
  "enum_values [] = Return []"
| "enum_values (item # items) =
     bnd (get item ''content'') (\<lambda>c.
     bnd (enum_values items) (\<lambda>cs. Return (c # cs)))"

text \<open>
  \<^verbatim>\<open>for (key in x)\<close> with the read \<^verbatim>\<open>x[key]\<close>: the own properties of a plain object in
  the order of enumeration (\<^verbatim>\<open>Object.prototype\<close> has no enumerable property), nothing
  for \<^verbatim>\<open>undefined\<close> and \<^verbatim>\<open>null\<close>.
\<close>

definition for_in_entries :: "jv \<Rightarrow> (string \<times> jv) list outcome" where
  "for_in_entries x = (if nullish x then Return [] else own_entries x)"

text \<open>
  The state of the member loop of the \<^verbatim>\<open>object\<close> case: \<^verbatim>\<open>schema.properties\<close>,
  \<^verbatim>\<open>schema.allOf\<close> (absent until the first \<^verbatim>\<open>select\<close> member) and \<^verbatim>\<open>required\<close>.
\<close>

record object_state =
  s_properties :: "(string \<times> jv) list"
  s_allOf :: "jv list option"
  s_required :: "jv list"

text \<open>
  The options of one \<^verbatim>\<open>select\<close> member:
  \<^verbatim>\<open>
  for (let option of Array.from(member.content)) {
    const optionSchema = renderSchema(option, dataStructures);
    for (key in optionSchema.properties) {
      const prop = optionSchema.properties[key];
      exclusive.push(key);
      schema.properties[key] = prop;
    }
  }
  \<close>
  The result is the pair of \<^verbatim>\<open>exclusive\<close> and \<^verbatim>\<open>schema.properties\<close>.
\<close>

fun select_options ::
  "(jv \<Rightarrow> schema outcome) \<Rightarrow> jv list \<Rightarrow> jv list \<Rightarrow> (string \<times> jv) list
     \<Rightarrow> (jv list \<times> (string \<times> jv) list) outcome" where
  "select_options render [] exclusive ps = Return (exclusive, ps)"
| "select_options render (option # options) exclusive ps =
     bnd (render option) (\<lambda>optionSchema.
     bnd (for_in_entries (lookup optionSchema ''properties'')) (\<lambda>entries.
       select_options render options
         (exclusive @ map (\<lambda>(key, prop). Str key) entries)
         (foldl (\<lambda>ps (key, prop). put ps key prop) ps entries)))"

text \<open>
  An ordinary member, after \<^verbatim>\<open>schema.properties[key] = renderSchema(member.content.value)\<close>:
  the description, \<^verbatim>\<open>required\<close> and \<^verbatim>\<open>nullable\<close>. The result is the property's schema
  and the list \<^verbatim>\<open>required\<close>.
\<close>

definition member_attributes :: "jv \<Rightarrow> jv \<Rightarrow> schema \<Rightarrow> jv list \<Rightarrow> (schema \<times> jv list) outcome" where
  "member_attributes member key prop required =
     bnd (get member ''meta'') (\<lambda>meta.
     bnd (opt_get meta ''description'') (\<lambda>description.
     bnd (Return (if \<not> nullish description then put prop ''description'' description else prop))
       (\<lambda>prop1.
     bnd (get member ''attributes'') (\<lambda>attributes.
     bnd (opt_get attributes ''typeAttributes'') (\<lambda>typeAttr.
       if truthy typeAttr then
         bnd (includes_string typeAttr ''required'') (\<lambda>req.
         bnd (if req then
                bnd (includes_value required key) (\<lambda>found.
                  Return (if found then required else required @ [key]))
              else Return required) (\<lambda>required1.
         bnd (includes_string typeAttr ''nullable'') (\<lambda>nullable.
           Return (if nullable
                   then put prop1 ''type'' (Arr [lookup prop1 ''type'', Str ''null''])
                   else prop1,
                   required1))))
       else Return (prop1, required))))))"

text \<open>
  The member loop. \<open>properties\<close> is the part of the array \<^verbatim>\<open>properties\<close> from index
  \<open>i\<close> on (the loop never reads below \<open>i\<close> again). A \<^verbatim>\<open>ref\<close> member is replaced in
  place by the content of its target; there is no test that the target exists, and
  \<^verbatim>\<open>ref.content\<close> on \<^verbatim>\<open>undefined\<close> throws a TypeError. Every iteration costs one unit
  of fuel, since mixins that include each other keep the loop running forever; a call
  of \<^verbatim>\<open>renderSchema\<close> with the fuel \<open>n\<close> gives its loop the fuel \<open>n\<close>.
\<close>

fun schema_loop ::
  "(jv \<Rightarrow> schema outcome) \<Rightarrow> (string \<times> jv) list \<Rightarrow> nat \<Rightarrow> jv list \<Rightarrow> object_state
     \<Rightarrow> object_state outcome" where
  "schema_loop render dataStructures n [] st = Return st"
| "schema_loop render dataStructures 0 (member # properties) st = OutOfFuel"
| "schema_loop render dataStructures (Suc n) (member # properties) st =
     bnd (get member ''element'') (\<lambda>e.
       if e = Str ''ref'' then
         bnd (get member ''content'') (\<lambda>c.
         bnd (get c ''href'') (\<lambda>href.
         bnd (to_key href) (\<lambda>name.
         bnd (entry_content (table_get dataStructures name)) (\<lambda>refContent.
           schema_loop render dataStructures n (concat_arg refContent @ properties) st))))
       else if e = Str ''select'' then
         bnd (get member ''content'') (\<lambda>c.
         bnd (array_from c) (\<lambda>options.
         bnd (select_options render options [] (s_properties st)) (\<lambda>(exclusive, ps).
           schema_loop render dataStructures n properties
             (st\<lparr>s_properties := ps,
                 s_allOf := Some ((case s_allOf st of None \<Rightarrow> [] | Some cs \<Rightarrow> cs)
                                 @ [Obj [(''not'', Obj [(''required'', Arr exclusive)])]])\<rparr>))))
       else
         bnd (get member ''content'') (\<lambda>c.
         bnd (get c ''key'') (\<lambda>k.
         bnd (get k ''content'') (\<lambda>key.
         bnd (to_key key) (\<lambda>name.
         bnd (get c ''value'') (\<lambda>val.
         bnd (render val) (\<lambda>prop.
         bnd (member_attributes member key prop (s_required st)) (\<lambda>(prop', required').
           schema_loop render dataStructures n properties
             (st\<lparr>s_properties := put (s_properties st) name (Obj prop'), s_required := required'\<rparr>)))))))))"

text \<open>
  The \<^verbatim>\<open>object\<close> and \<^verbatim>\<open>option\<close> case assembled: \<^verbatim>\<open>type\<close> and \<^verbatim>\<open>properties\<close> are set
  before the loop, \<^verbatim>\<open>allOf\<close> inside it, \<^verbatim>\<open>required\<close> after it when it is not empty.
\<close>

definition object_schema :: "object_state \<Rightarrow> schema" where
  "object_schema st =
     [(''type'', Str ''object''), (''properties'', Obj (s_properties st))]
     @ (case s_allOf st of None \<Rightarrow> [] | Some cs \<Rightarrow> [(''allOf'', Arr cs)])
     @ (if s_required st \<noteq> [] then [(''required'', Arr (s_required st))] else [])"

text \<open>
  The code after the \<^verbatim>\<open>switch\<close>:
  \<^verbatim>\<open>
  if ((root.meta != null ? root.meta.description : undefined) != null) {
    schema.description = root.meta.description;
  }
  if (root.attributes != null ? root.attributes.typeAttributes : undefined) {
    typeAttr = root.attributes.typeAttributes;
    if (typeAttr.indexOf("nullable") !== -1) { schema.type = [schema.type, "null"]; }
  }
  return schema;
  \<close>
\<close>

definition finish_schema :: "jv \<Rightarrow> schema \<Rightarrow> schema outcome" where
  "finish_schema root schema =
     bnd (get root ''meta'') (\<lambda>meta.
     bnd (opt_get meta ''description'') (\<lambda>description.
     bnd (Return (if \<not> nullish description then put schema ''description'' description
                  else schema)) (\<lambda>schema1.
     bnd (get root ''attributes'') (\<lambda>attributes.
     bnd (opt_get attributes ''typeAttributes'') (\<lambda>typeAttr.
       if truthy typeAttr then
         bnd (includes_string typeAttr ''nullable'') (\<lambda>nullable.
           Return (if nullable
                   then put schema1 ''type'' (Arr [lookup schema1 ''type'', Str ''null''])
                   else schema1))
       else Return schema1)))))"

text \<open>
  \<^verbatim>\<open>renderSchema(root, dataStructures)\<close>. The first argument is the fuel: every call
  of \<^verbatim>\<open>renderSchema\<close> costs one unit.
\<close>

primrec renderSchema ::
  "nat \<Rightarrow> (jv \<Rightarrow> jv \<Rightarrow> bool outcome) \<Rightarrow> (string \<times> jv) list \<Rightarrow> jv \<Rightarrow> schema outcome" where
  "renderSchema 0 deq dataStructures root = OutOfFuel"
| "renderSchema (Suc n) deq dataStructures root =
     bnd (get root ''element'') (\<lambda>e.
     bnd (if e = Str ''boolean'' \<or> e = Str ''string'' \<or> e = Str ''number'' then
            bnd (get root ''attributes'') (\<lambda>attributes.
            bnd (opt_get attributes ''default'') (\<lambda>dflt.
              Return (if \<not> nullish dflt then [(''type'', e), (''default'', dflt)]
                      else [(''type'', e)])))
          else if e = Str ''enum'' then
            bnd (get root ''content'') (\<lambda>c.
            bnd (array_from (or_empty c)) (\<lambda>items.
            bnd (enum_values items) (\<lambda>vs. Return [(''enum'', Arr vs)])))
          else if e = Str ''array'' then
            bnd (get root ''content'') (\<lambda>c.
            bnd (array_from (or_empty c)) (\<lambda>children.
            bnd (render_all (renderSchema n deq dataStructures) children) (\<lambda>items.
              array_schema deq items)))
          else if e = Str ''object'' \<or> e = Str ''option'' then
            bnd (get root ''content'') (\<lambda>c.
            bnd (slice0 c) (\<lambda>properties.
            bnd (schema_loop (renderSchema n deq dataStructures) dataStructures (Suc n) properties
                   \<lparr>s_properties = [], s_allOf = None, s_required = []\<rparr>) (\<lambda>st.
              Return (object_schema st))))
          else
            bnd (to_key e) (\<lambda>name.
              if entry_truthy (table_get dataStructures name) then
                bnd (inherit_entry (table_get dataStructures name) root) (\<lambda>combined.
                  renderSchema n deq dataStructures combined)
              else Return []))
       (\<lambda>schema. finish_schema root schema))"

section \<open>example.js\<close>

text \<open>\<^verbatim>\<open>defaultValue(type)\<close>: the \<^verbatim>\<open>switch\<close> has no default, so any other type gives
  \<^verbatim>\<open>undefined\<close>.\<close>

definition defaultValue :: "jv \<Rightarrow> jv" where
  "defaultValue type =
     (if type = Str ''boolean'' then Bool True
      else if type = Str ''number'' then Num 1
      else if type = Str ''string'' then Str ''Hello, world!''
      else Undefined)"

text \<open>\<^verbatim>\<open>Array.from(xs).map(item => render(item))\<close>\<close>

fun example_all :: "(jv \<Rightarrow> jv outcome) \<Rightarrow> jv list \<Rightarrow> jv list outcome" where
  "example_all render [] = Return []"
| "example_all render (item # items) =
     bnd (render item) (\<lambda>v.
     bnd (example_all render items) (\<lambda>vs. Return (v # vs)))"

text \<open>
  The member loop of the \<^verbatim>\<open>object\<close> case. A \<^verbatim>\<open>select\<close> member is replaced by
  \<^verbatim>\<open>member.content[0].content[0]\<close>, the first member of its first option.
\<close>

fun example_loop ::
  "(jv \<Rightarrow> jv outcome) \<Rightarrow> (string \<times> jv) list \<Rightarrow> nat \<Rightarrow> jv list \<Rightarrow> (string \<times> jv) list
     \<Rightarrow> (string \<times> jv) list outcome" where
  "example_loop render dataStructures n [] obj = Return obj"
| "example_loop render dataStructures 0 (member # properties) obj = OutOfFuel"
| "example_loop render dataStructures (Suc n) (member # properties) obj =
     bnd (get member ''element'') (\<lambda>e.
       if e = Str ''ref'' then
         bnd (get member ''content'') (\<lambda>c.
         bnd (get c ''href'') (\<lambda>href.
         bnd (to_key href) (\<lambda>name.
         bnd (entry_content (table_get dataStructures name)) (\<lambda>refContent.
           example_loop render dataStructures n (concat_arg refContent @ properties) obj))))
       else
         bnd (if e = Str ''select'' then
                bnd (get member ''content'') (\<lambda>c.
                bnd (index0 c) (\<lambda>option.
                bnd (get option ''content'') (\<lambda>oc.
                  index0 oc)))
              else Return member) (\<lambda>member'.
         bnd (get member' ''content'') (\<lambda>c.
         bnd (get c ''key'') (\<lambda>k.
         bnd (get k ''content'') (\<lambda>key.
         bnd (to_key key) (\<lambda>name.
         bnd (get c ''value'') (\<lambda>val.
         bnd (render val) (\<lambda>v.
           example_loop render dataStructures n properties (put obj name v)))))))))"

text \<open>\<^verbatim>\<open>renderExample(root, dataStructures)\<close>, with fuel as for \<^verbatim>\<open>renderSchema\<close>.\<close>

primrec renderExample :: "nat \<Rightarrow> (string \<times> jv) list \<Rightarrow> jv \<Rightarrow> jv outcome" where
  "renderExample 0 dataStructures root = OutOfFuel"
| "renderExample (Suc n) dataStructures root =
     bnd (get root ''element'') (\<lambda>e.
       if e = Str ''boolean'' \<or> e = Str ''string'' \<or> e = Str ''number'' then
         bnd (get root ''content'') (\<lambda>c.
           Return (if \<not> nullish c then c else defaultValue e))
       else if e = Str ''enum'' then
         bnd (get root ''content'') (\<lambda>c.
         bnd (index0 c) (\<lambda>first.
           renderExample n dataStructures first))
       else if e = Str ''array'' then
         bnd (get root ''content'') (\<lambda>c.
         bnd (array_from (or_empty c)) (\<lambda>items.
         bnd (example_all (renderExample n dataStructures) items) (\<lambda>vs.
           Return (Arr vs))))
       else if e = Str ''object'' then
         bnd (get root ''content'') (\<lambda>c.
         bnd (slice0 c) (\<lambda>properties.
         bnd (example_loop (renderExample n dataStructures) dataStructures (Suc n) properties [])
           (\<lambda>obj. Return (Obj obj))))
       else
         bnd (to_key e) (\<lambda>name.
           if entry_truthy (table_get dataStructures name) then
             bnd (inherit_entry (table_get dataStructures name) root) (\<lambda>combined.
               renderExample n dataStructures combined)
           else Return Undefined))"

section \<open>The modules on a store\<close>

text \<open>
  The definitions above work on values, where an assignment returns a new value and no
  two values share anything. What the code mutates, and what its result shares with
  its arguments, is said on a store: every array and every object is a cell at an
  address, a value is a primitive or a reference to a cell, and the store grows at its
  end (a new cell gets the address \<open>length h\<close>). The functions of this section are
  the same code again, statement by statement, with every read and every write of a
  cell made explicit.
\<close>

type_synonym addr = nat

datatype hv = HUndefined | HNull | HBool bool | HNum int | HStr string | HRef addr

datatype cell = CArr "hv list" | CObj "(string \<times> hv) list"

type_synonym heap = "cell list"

text \<open>A computation on the store: its outcome and the store it leaves.\<close>

type_synonym 'a hm = "heap \<Rightarrow> 'a outcome \<times> heap"

definition hreturn :: "'a \<Rightarrow> 'a hm" where
  "hreturn x h = (Return x, h)"

definition hthrow :: "error \<Rightarrow> 'a hm" where
  "hthrow e h = (Throw e, h)"

definition hstop :: "'a outcome \<Rightarrow> heap \<Rightarrow> 'b outcome \<times> heap" where
  "hstop r h = (case r of Throw e \<Rightarrow> Throw e | OutOfFuel \<Rightarrow> OutOfFuel | _ \<Rightarrow> Unmodelled, h)"

definition hbnd :: "'a hm \<Rightarrow> ('a \<Rightarrow> 'b hm) \<Rightarrow> 'b hm" where
  "hbnd m f h = (case m h of (Return x, h') \<Rightarrow> f x h' | (r, h') \<Rightarrow> hstop r h')"

text \<open>A read: an outcome that depends on the store and leaves it as it is.\<close>

definition hread :: "(heap \<Rightarrow> 'a outcome) \<Rightarrow> 'a hm" where
  "hread r h = (r h, h)"

definition h_cell :: "heap \<Rightarrow> addr \<Rightarrow> cell option" where
  "h_cell h a = (if a < length h then Some (h ! a) else None)"

text \<open>A new cell (\<^verbatim>\<open>{}\<close>, \<^verbatim>\<open>[]\<close>, the objects \<^verbatim>\<open>JSON.parse\<close> builds).\<close>

definition h_alloc :: "cell \<Rightarrow> hv hm" where
  "h_alloc c h = (Return (HRef (length h)), h @ [c])"

definition h_write :: "addr \<Rightarrow> cell \<Rightarrow> unit hm" where
  "h_write a c h = (Return (), h[a := c])"

subsection \<open>Primitive operations on the store\<close>

fun h_truthy :: "hv \<Rightarrow> bool" where
  "h_truthy HUndefined = False"
| "h_truthy HNull = False"
| "h_truthy (HBool b) = b"
| "h_truthy (HNum n) = (n \<noteq> 0)"
| "h_truthy (HStr s) = (s \<noteq> [])"
| "h_truthy (HRef a) = True"

fun h_nullish :: "hv \<Rightarrow> bool" where
  "h_nullish HUndefined = True"
| "h_nullish HNull = True"
| "h_nullish v = False"

definition h_lookup :: "(string \<times> hv) list \<Rightarrow> string \<Rightarrow> hv" where
  "h_lookup kvs k = (case map_of kvs k of None \<Rightarrow> HUndefined | Some v \<Rightarrow> v)"

text \<open>\<^verbatim>\<open>x.name\<close>, as \<open>get\<close>. A reference to no cell does not occur in a store built by
  allocation.\<close>

fun h_get :: "heap \<Rightarrow> hv \<Rightarrow> string \<Rightarrow> hv outcome" where
  "h_get h HUndefined k = Throw TypeError"
| "h_get h HNull k = Throw TypeError"
| "h_get h (HRef a) k =
     (case h_cell h a of
        Some (CObj kvs) \<Rightarrow> Return (h_lookup kvs k)
      | Some (CArr vs) \<Rightarrow> Return HUndefined
      | None \<Rightarrow> Unmodelled)"
| "h_get h v k = Return HUndefined"

text \<open>\<^verbatim>\<open>x[k] = v\<close>, as \<open>set_field\<close>: the cell of \<open>x\<close> is overwritten in place.\<close>

fun h_set_field :: "hv \<Rightarrow> string \<Rightarrow> hv \<Rightarrow> unit hm" where
  "h_set_field HUndefined k v = hthrow TypeError"
| "h_set_field HNull k v = hthrow TypeError"
| "h_set_field (HRef a) k v =
     (\<lambda>h. case h_cell h a of
            Some (CObj kvs) \<Rightarrow> h_write a (CObj (put kvs k v)) h
          | _ \<Rightarrow> (Unmodelled, h))"
| "h_set_field x k v = hreturn ()"

fun h_to_key :: "hv \<Rightarrow> string outcome" where
  "h_to_key (HStr s) = Return s"
| "h_to_key HUndefined = Return ''undefined''"
| "h_to_key HNull = Return ''null''"
| "h_to_key (HBool b) = Return (if b then ''true'' else ''false'')"
| "h_to_key v = Unmodelled"

text \<open>\<^verbatim>\<open>Array.from(x)\<close> builds a new array, which the callers only iterate: the model
  returns its elements.\<close>

fun h_array_from :: "heap \<Rightarrow> hv \<Rightarrow> hv list outcome" where
  "h_array_from h HUndefined = Throw TypeError"
| "h_array_from h HNull = Throw TypeError"
| "h_array_from h (HRef a) =
     (case h_cell h a of
        Some (CArr vs) \<Rightarrow> Return vs
      | Some (CObj kvs) \<Rightarrow> (if map_of kvs ''length'' = None then Return [] else Unmodelled)
      | None \<Rightarrow> Unmodelled)"
| "h_array_from h (HStr s) = Return (map (\<lambda>c. HStr [c]) s)"
| "h_array_from h v = Return []"

fun h_length_of :: "heap \<Rightarrow> hv \<Rightarrow> hv outcome" where
  "h_length_of h HUndefined = Throw TypeError"
| "h_length_of h HNull = Throw TypeError"
| "h_length_of h (HRef a) =
     (case h_cell h a of
        Some (CArr vs) \<Rightarrow> Return (HNum (int (length vs)))
      | Some (CObj kvs) \<Rightarrow> Return (h_lookup kvs ''length'')
      | None \<Rightarrow> Unmodelled)"
| "h_length_of h (HStr s) = Return (HNum (int (length s)))"
| "h_length_of h v = Return HUndefined"

definition h_nth :: "hv list \<Rightarrow> nat \<Rightarrow> hv" where
  "h_nth xs i = (if i < length xs then xs ! i else HUndefined)"

fun h_index0 :: "heap \<Rightarrow> hv \<Rightarrow> hv outcome" where
  "h_index0 h HUndefined = Throw TypeError"
| "h_index0 h HNull = Throw TypeError"
| "h_index0 h (HRef a) =
     (case h_cell h a of
        Some (CArr vs) \<Rightarrow> Return (h_nth vs 0)
      | Some (CObj kvs) \<Rightarrow> Return (h_lookup kvs ''0'')
      | None \<Rightarrow> Unmodelled)"
| "h_index0 h (HStr s) = Return (case s of [] \<Rightarrow> HUndefined | c # cs \<Rightarrow> HStr [c])"
| "h_index0 h v = Return HUndefined"

text \<open>\<^verbatim>\<open>x.slice(0)\<close> builds a new array, local to the caller: the model returns its
  elements.\<close>

fun h_slice0 :: "heap \<Rightarrow> hv \<Rightarrow> hv list outcome" where
  "h_slice0 h (HRef a) =
     (case h_cell h a of
        Some (CArr vs) \<Rightarrow> Return vs
      | Some (CObj kvs) \<Rightarrow> Throw TypeError
      | None \<Rightarrow> Unmodelled)"
| "h_slice0 h (HStr s) = Return (map (\<lambda>c. HStr [c]) s)"
| "h_slice0 h v = Throw TypeError"

fun h_concat_arg :: "heap \<Rightarrow> hv \<Rightarrow> hv list outcome" where
  "h_concat_arg h (HRef a) =
     (case h_cell h a of
        Some (CArr vs) \<Rightarrow> Return vs
      | Some (CObj kvs) \<Rightarrow> Return [HRef a]
      | None \<Rightarrow> Unmodelled)"
| "h_concat_arg h v = Return [v]"

fun h_includes_string :: "heap \<Rightarrow> hv \<Rightarrow> string \<Rightarrow> bool outcome" where
  "h_includes_string h (HRef a) s =
     (case h_cell h a of
        Some (CArr vs) \<Rightarrow> Return (HStr s \<in> set vs)
      | Some (CObj kvs) \<Rightarrow> Throw TypeError
      | None \<Rightarrow> Unmodelled)"
| "h_includes_string h (HStr t) s = Return (is_substring s t)"
| "h_includes_string h v s = Throw TypeError"

text \<open>\<^verbatim>\<open>known.indexOf(key) !== -1\<close>: on the store \<^verbatim>\<open>===\<close> is equality of values, a
  reference being equal to itself only.\<close>

definition h_includes_value :: "hv list \<Rightarrow> hv \<Rightarrow> bool" where
  "h_includes_value known key = (key \<in> set known)"

fun h_has_push :: "heap \<Rightarrow> hv \<Rightarrow> bool outcome" where
  "h_has_push h (HRef a) =
     (case h_cell h a of
        Some (CArr vs) \<Rightarrow> Return True
      | Some (CObj kvs) \<Rightarrow> Return (h_truthy (h_lookup kvs ''push''))
      | None \<Rightarrow> Unmodelled)"
| "h_has_push h v = Return False"

fun h_own_entries :: "heap \<Rightarrow> hv \<Rightarrow> (string \<times> hv) list outcome" where
  "h_own_entries h HUndefined = Throw TypeError"
| "h_own_entries h HNull = Throw TypeError"
| "h_own_entries h (HRef a) =
     (case h_cell h a of
        Some (CObj kvs) \<Rightarrow> Return (js_order kvs)
      | Some (CArr vs) \<Rightarrow> (if vs = [] then Return [] else Unmodelled)
      | None \<Rightarrow> Unmodelled)"
| "h_own_entries h (HStr s) = (if s = [] then Return [] else Unmodelled)"
| "h_own_entries h v = Return []"

subsection \<open>inherit.js on the store\<close>

text \<open>
  \<^verbatim>\<open>JSON.stringify(x)\<close> reads everything reachable from \<open>x\<close>, the properties of an object
  in the order of enumeration, and throws a TypeError on a circular structure (\<open>path\<close>
  holds the cells being written out); \<^verbatim>\<open>JSON.parse\<close> builds new cells for the arrays
  and objects of the text.
\<close>

fun sequence :: "'a outcome list \<Rightarrow> 'a list outcome" where
  "sequence [] = Return []"
| "sequence (m # ms) = bnd m (\<lambda>x. bnd (sequence ms) (\<lambda>xs. Return (x # xs)))"

function snapshot :: "heap \<Rightarrow> addr list \<Rightarrow> hv \<Rightarrow> jv outcome" where
  "snapshot h path HUndefined = Return Undefined"
| "snapshot h path HNull = Return Null"
| "snapshot h path (HBool b) = Return (Bool b)"
| "snapshot h path (HNum n) = Return (Num n)"
| "snapshot h path (HStr s) = Return (Str s)"
| "snapshot h path (HRef a) =
     (if a \<in> set path then Throw TypeError
      else case h_cell h a of
             None \<Rightarrow> Unmodelled
           | Some (CArr vs) \<Rightarrow>
               bnd (sequence (map (snapshot h (a # path)) vs)) (\<lambda>xs. Return (Arr xs))
           | Some (CObj kvs) \<Rightarrow>
               bnd (sequence (map (\<lambda>kv. bnd (snapshot h (a # path) (snd kv))
                                            (\<lambda>x. Return (fst kv, x))) (js_order kvs)))
                 (\<lambda>ps. Return (Obj ps)))"
  by pat_completeness auto
termination
proof (relation "measure (\<lambda>(h, path, v). length h - card (set path \<inter> {..<length h}))",
    goal_cases)
  case 1
  show ?case by simp
next
  case (2 h path a c vs x)
  then have a: "a < length h" "a \<notin> set path"
    by (auto simp: h_cell_def split: if_splits)
  have "card (set path \<inter> {..<length h}) < card (insert a (set path \<inter> {..<length h}))"
    using a by simp
  moreover have "card (insert a (set path \<inter> {..<length h})) \<le> card {..<length h}"
    using a by (intro card_mono) auto
  moreover have "set (a # path) \<inter> {..<length h} = insert a (set path \<inter> {..<length h})"
    using a by auto
  ultimately show ?case by simp
next
  case (3 h path a c kvs x)
  then have a: "a < length h" "a \<notin> set path"
    by (auto simp: h_cell_def split: if_splits)
  have "card (set path \<inter> {..<length h}) < card (insert a (set path \<inter> {..<length h}))"
    using a by simp
  moreover have "card (insert a (set path \<inter> {..<length h})) \<le> card {..<length h}"
    using a by (intro card_mono) auto
  moreover have "set (a # path) \<inter> {..<length h} = insert a (set path \<inter> {..<length h})"
    using a by auto
  ultimately show ?case by simp
qed

fun alloc_jv :: "jv \<Rightarrow> heap \<Rightarrow> hv \<times> heap"
  and alloc_list :: "jv list \<Rightarrow> heap \<Rightarrow> hv list \<times> heap"
  and alloc_props :: "(string \<times> jv) list \<Rightarrow> heap \<Rightarrow> (string \<times> hv) list \<times> heap" where
  "alloc_jv Undefined h = (HUndefined, h)"
| "alloc_jv Null h = (HNull, h)"
| "alloc_jv (Bool b) h = (HBool b, h)"
| "alloc_jv (Num n) h = (HNum n, h)"
| "alloc_jv (Str s) h = (HStr s, h)"
| "alloc_jv (Arr xs) h = (case alloc_list xs h of (vs, h') \<Rightarrow> (HRef (length h'), h' @ [CArr vs]))"
| "alloc_jv (Obj kvs) h =
     (case alloc_props kvs h of (ps, h') \<Rightarrow> (HRef (length h'), h' @ [CObj ps]))"
| "alloc_list [] h = ([], h)"
| "alloc_list (x # xs) h =
     (case alloc_jv x h of (v, h') \<Rightarrow>
        (case alloc_list xs h' of (vs, h'') \<Rightarrow> (v # vs, h'')))"
| "alloc_props [] h = ([], h)"
| "alloc_props ((k, x) # kvs) h =
     (case alloc_jv x h of (v, h') \<Rightarrow>
        (case alloc_props kvs h' of (ps, h'') \<Rightarrow> ((k, v) # ps, h'')))"

text \<open>\<^verbatim>\<open>JSON.parse(JSON.stringify(base))\<close>\<close>

definition h_deep_copy :: "hv \<Rightarrow> hv hm" where
  "h_deep_copy x =
     hbnd (hread (\<lambda>h. snapshot h [] x)) (\<lambda>text.
       if text = Undefined then hthrow SyntaxError
       else (\<lambda>h. case alloc_jv (json_copy text) h of (v, h') \<Rightarrow> (Return v, h')))"

text \<open>One iteration of the loop of \<^verbatim>\<open>uniqueMembers\<close> on the array at the address \<open>c\<close>;
  \<^verbatim>\<open>content.splice(i, 1)\<close> overwrites that cell.\<close>

definition h_uniqueMembers_step :: "addr \<Rightarrow> int \<Rightarrow> hv list \<Rightarrow> (int \<times> hv list) hm" where
  "h_uniqueMembers_step c i known =
     hbnd (hread (\<lambda>h. case h_cell h c of Some (CArr vs) \<Rightarrow> Return vs | _ \<Rightarrow> Unmodelled))
       (\<lambda>content.
     hbnd (hread (\<lambda>h. h_get h (h_nth content (nat i)) ''element'')) (\<lambda>e.
       if e = HStr ''member'' then
         hbnd (hread (\<lambda>h. h_get h (h_nth content (nat i)) ''content'')) (\<lambda>mc.
         hbnd (hread (\<lambda>h. h_get h mc ''key'')) (\<lambda>k.
         hbnd (hread (\<lambda>h. h_get h k ''content'')) (\<lambda>key.
           if h_includes_value known key then
             hbnd (h_write c (CArr (splice1 content (nat i)))) (\<lambda>u. hreturn (i, known))
           else hreturn (i - 1, known @ [key]))))
       else hreturn (i - 1, known)))"

definition array_length :: "heap \<Rightarrow> addr \<Rightarrow> nat" where
  "array_length h c = (case h_cell h c of Some (CArr vs) \<Rightarrow> length vs | _ \<Rightarrow> 0)"

function h_uniqueMembers_loop :: "addr \<Rightarrow> int \<Rightarrow> hv list \<Rightarrow> unit hm" where
  "h_uniqueMembers_loop c i known h =
     (if i \<ge> 0 then
        (case h_uniqueMembers_step c i known h of
           (Return (i', known'), h') \<Rightarrow> h_uniqueMembers_loop c i' known' h'
         | (r, h') \<Rightarrow> hstop r h')
      else (Return (), h))"
  by pat_completeness auto
termination
proof (relation "measure (\<lambda>(c, i, known, h). array_length h c + nat (i + 1))", goal_cases)
  case 1
  show ?case by simp
next
  case (2 c i known h r h' x i' known')
  then have step: "h_uniqueMembers_step c i known h = (Return (i', known'), h')"
    by simp
  from step obtain content where cell: "h_cell h c = Some (CArr content)"
    by (auto simp: h_uniqueMembers_step_def hbnd_def hread_def hstop_def
        split: option.splits cell.splits outcome.splits prod.splits)
  have "(h' = h[c := CArr (splice1 content (nat i))] \<and> i' = i \<and> nat i < length content)
        \<or> (h' = h \<and> i' = i - 1)"
  proof (cases "nat i < length content")
    case True
    with step cell show ?thesis
      by (auto simp: h_uniqueMembers_step_def hbnd_def hread_def hstop_def hreturn_def
          h_write_def split: outcome.splits prod.splits if_splits)
  next
    case False
    then have "h_nth content (nat i) = HUndefined" by (simp add: h_nth_def)
    with step cell show ?thesis
      by (simp add: h_uniqueMembers_step_def hbnd_def hread_def hstop_def)
  qed
  with cell 2(1) show ?case
    by (auto simp: array_length_def h_cell_def splice1_def split: if_splits)
qed

definition h_uniqueMembers :: "hv \<Rightarrow> unit hm" where
  "h_uniqueMembers content h =
     (case content of
        HRef c \<Rightarrow>
          (case h_cell h c of
             Some (CArr vs) \<Rightarrow> h_uniqueMembers_loop c (int (length vs) - 1) [] h
           | _ \<Rightarrow> (Unmodelled, h))
      | _ \<Rightarrow> (Unmodelled, h))"

fun h_copy_entries :: "string \<Rightarrow> (string \<times> hv) list \<Rightarrow> hv \<Rightarrow> unit hm" where
  "h_copy_entries f [] combined = hreturn ()"
| "h_copy_entries f ((key, val) # kvs) combined =
     hbnd (hread (\<lambda>h. h_get h combined f)) (\<lambda>cm.
     hbnd (h_set_field cm key val) (\<lambda>u.
       h_copy_entries f kvs combined))"

definition h_inherit_field :: "string \<Rightarrow> hv \<Rightarrow> hv \<Rightarrow> unit hm" where
  "h_inherit_field f combined element =
     hbnd (hread (\<lambda>h. h_get h element f)) (\<lambda>em.
       if h_truthy em then
         hbnd (hread (\<lambda>h. h_get h combined f)) (\<lambda>cm.
         hbnd (if h_nullish cm
               then hbnd (h_alloc (CObj [])) (\<lambda>fresh. h_set_field combined f fresh)
               else hreturn ()) (\<lambda>u.
         hbnd (hread (\<lambda>h. h_own_entries h em)) (\<lambda>kvs.
           h_copy_entries f kvs combined)))
       else hreturn ())"

text \<open>\<^verbatim>\<open>cc.push(item)\<close>\<close>

fun h_push :: "hv \<Rightarrow> hv \<Rightarrow> unit hm" where
  "h_push (HRef a) item =
     (\<lambda>h. case h_cell h a of
            Some (CArr ys) \<Rightarrow> h_write a (CArr (ys @ [item])) h
          | Some (CObj kvs) \<Rightarrow> (Throw TypeError, h)
          | None \<Rightarrow> (Unmodelled, h))"
| "h_push v item = hthrow TypeError"

fun h_push_all :: "hv \<Rightarrow> hv list \<Rightarrow> unit hm" where
  "h_push_all combined [] = hreturn ()"
| "h_push_all combined (item # items) =
     hbnd (hread (\<lambda>h. h_get h combined ''content'')) (\<lambda>cc.
     hbnd (h_push cc item) (\<lambda>u.
       h_push_all combined items))"

text \<open>
  \<^verbatim>\<open>
  if (combined.content.length && combined.content[0].element === "member") {
    uniqueMembers(combined.content);
  }
  \<close>
\<close>

definition h_unique_if_members :: "hv \<Rightarrow> unit hm" where
  "h_unique_if_members combined =
     hbnd (hread (\<lambda>h. h_get h combined ''content'')) (\<lambda>cc2.
     hbnd (hread (\<lambda>h. h_length_of h cc2)) (\<lambda>len.
       if h_truthy len then
         hbnd (hread (\<lambda>h. h_index0 h cc2)) (\<lambda>first.
         hbnd (hread (\<lambda>h. h_get h first ''element'')) (\<lambda>e.
           if e = HStr ''member'' then h_uniqueMembers cc2 else hreturn ()))
       else hreturn ()))"

definition h_inherit_content :: "hv \<Rightarrow> hv \<Rightarrow> unit hm" where
  "h_inherit_content combined element =
     hbnd (hread (\<lambda>h. h_get h element ''content'')) (\<lambda>ec.
       if h_truthy ec then
         hbnd (hread (\<lambda>h. h_get h combined ''content'')) (\<lambda>cc.
         hbnd (hread (\<lambda>h. h_has_push h cc)) (\<lambda>p1.
         hbnd (hread (\<lambda>h. h_has_push h ec)) (\<lambda>p2.
           if p1 \<or> p2 then
             hbnd (if h_nullish cc
                   then hbnd (h_alloc (CArr [])) (\<lambda>fresh. h_set_field combined ''content'' fresh)
                   else hreturn ()) (\<lambda>u.
             hbnd (hread (\<lambda>h. h_array_from h ec)) (\<lambda>items.
             hbnd (h_push_all combined items) (\<lambda>u.
               h_unique_if_members combined)))
           else hthrow ReferenceError)))
       else hreturn ())"

text \<open>
  \<^verbatim>\<open>inherit(base, element)\<close> on the store: the deep copy, then the three blocks that
  merge \<open>element\<close> into it; the result is the reference \<open>combined\<close>.
\<close>

definition h_merge :: "hv \<Rightarrow> hv \<Rightarrow> hv hm" where
  "h_merge combined element =
     hbnd (h_inherit_field ''meta'' combined element) (\<lambda>u.
     hbnd (h_inherit_field ''attributes'' combined element) (\<lambda>u.
     hbnd (h_inherit_content combined element) (\<lambda>u.
       hreturn combined)))"

definition h_inherit :: "hv \<Rightarrow> hv \<Rightarrow> hv hm" where
  "h_inherit base element = hbnd (h_deep_copy base) (\<lambda>combined. h_merge combined element)"

text \<open>
  \<^verbatim>\<open>dataStructures[name]\<close> on the store, as \<open>table_get\<close>, and \<^verbatim>\<open>if (ref)\<close>,
  \<^verbatim>\<open>ref.content\<close> and \<^verbatim>\<open>inherit(ref, root)\<close> for its value. The deep copy of
  \<^verbatim>\<open>Object.prototype\<close> is a new empty object.
\<close>

definition h_table_get :: "heap \<Rightarrow> hv \<Rightarrow> string \<Rightarrow> hv entry outcome" where
  "h_table_get h dataStructures name =
     (case dataStructures of
        HRef a \<Rightarrow>
          (case h_cell h a of
             Some (CObj kvs) \<Rightarrow>
               Return (case map_of kvs name of
                         Some v \<Rightarrow> Own v
                       | None \<Rightarrow>
                           if name = ''__proto__'' then Object_prototype
                           else if name \<in> set prototype_functions then Inherited_function
                           else Own HUndefined)
           | _ \<Rightarrow> Unmodelled)
      | HUndefined \<Rightarrow> Throw TypeError
      | HNull \<Rightarrow> Throw TypeError
      | _ \<Rightarrow> Unmodelled)"

fun h_entry_truthy :: "hv entry \<Rightarrow> bool" where
  "h_entry_truthy (Own ref) = h_truthy ref"
| "h_entry_truthy Inherited_function = True"
| "h_entry_truthy Object_prototype = True"

fun h_entry_content :: "heap \<Rightarrow> hv entry \<Rightarrow> hv outcome" where
  "h_entry_content h (Own ref) = h_get h ref ''content''"
| "h_entry_content h Inherited_function = Return HUndefined"
| "h_entry_content h Object_prototype = Return HUndefined"

fun h_inherit_entry :: "hv entry \<Rightarrow> hv \<Rightarrow> hv hm" where
  "h_inherit_entry (Own base) element = h_inherit base element"
| "h_inherit_entry Inherited_function element = hthrow SyntaxError"
| "h_inherit_entry Object_prototype element =
     hbnd (h_alloc (CObj [])) (\<lambda>combined. h_merge combined element)"

subsection \<open>schema.js on the store\<close>

text \<open>
  The renderers on the store. Every object and array that the code creates (\<^verbatim>\<open>{}\<close>,
  \<^verbatim>\<open>[]\<close>, an object or array literal, the result of \<^verbatim>\<open>slice(0)\<close> and of \<^verbatim>\<open>map\<close>) is a new
  cell, and every assignment, \<^verbatim>\<open>push\<close> and \<^verbatim>\<open>splice\<close> is a write to the cell that the
  code names, read again from the store wherever the code reads it again
  (\<^verbatim>\<open>schema.properties[key].description = ...\<close> reads \<^verbatim>\<open>schema.properties\<close> and then its
  property \<^verbatim>\<open>key\<close>). \<^verbatim>\<open>Array.from(x)\<close> builds an array that its callers only iterate:
  the model returns its elements.
\<close>

definition h_opt_get :: "heap \<Rightarrow> hv \<Rightarrow> string \<Rightarrow> hv outcome" where
  "h_opt_get h x f = (if h_nullish x then Return HUndefined else h_get h x f)"

definition h_or_empty :: "heap \<Rightarrow> hv \<Rightarrow> hv list outcome" where
  "h_or_empty h x = (if h_truthy x then h_array_from h x else Return [])"

text \<open>The elements of an array that the code has created itself (\<^verbatim>\<open>items\<close>,
  \<^verbatim>\<open>required\<close>, \<^verbatim>\<open>properties\<close>), for \<^verbatim>\<open>x.length\<close>, \<^verbatim>\<open>x[i]\<close> and \<^verbatim>\<open>x.indexOf(v)\<close>.\<close>

definition h_elements :: "heap \<Rightarrow> hv \<Rightarrow> hv list outcome" where
  "h_elements h x =
     (case x of
        HRef a \<Rightarrow> (case h_cell h a of Some (CArr vs) \<Rightarrow> Return vs | _ \<Rightarrow> Unmodelled)
      | _ \<Rightarrow> Unmodelled)"

text \<open>\<^verbatim>\<open>x.slice(0)\<close>: a new array with the elements of \<open>x\<close> (the characters of a string,
  as in \<open>slice0\<close>).\<close>

definition h_slice0_new :: "hv \<Rightarrow> hv hm" where
  "h_slice0_new x = hbnd (hread (\<lambda>h. h_slice0 h x)) (\<lambda>vs. h_alloc (CArr vs))"

text \<open>\<^verbatim>\<open>properties.splice.apply(properties, [i, 1].concat(xs))\<close>: the entry at \<open>i\<close> is
  replaced by the entries \<open>xs\<close>, in place.\<close>

definition h_splice :: "hv \<Rightarrow> nat \<Rightarrow> hv list \<Rightarrow> unit hm" where
  "h_splice x i xs =
     (case x of
        HRef a \<Rightarrow>
          (\<lambda>h. case h_cell h a of
                 Some (CArr vs) \<Rightarrow> h_write a (CArr (take i vs @ xs @ drop (Suc i) vs)) h
               | _ \<Rightarrow> (Unmodelled, h))
      | _ \<Rightarrow> (\<lambda>h. (Unmodelled, h)))"

text \<open>\<^verbatim>\<open>for (var item of items) { schema.enum.push(item.content); }\<close>\<close>

fun h_enum_push :: "hv \<Rightarrow> hv list \<Rightarrow> unit hm" where
  "h_enum_push schema [] = hreturn ()"
| "h_enum_push schema (item # items) =
     hbnd (hread (\<lambda>h. h_get h schema ''enum'')) (\<lambda>enum.
     hbnd (hread (\<lambda>h. h_get h item ''content'')) (\<lambda>c.
     hbnd (h_push enum c) (\<lambda>u.
       h_enum_push schema items)))"

text \<open>\<^verbatim>\<open>for (item of children) { items.push(renderSchema(item, dataStructures)); }\<close>\<close>

fun h_render_all :: "(hv \<Rightarrow> hv hm) \<Rightarrow> hv \<Rightarrow> hv list \<Rightarrow> unit hm" where
  "h_render_all render items [] = hreturn ()"
| "h_render_all render items (item # children) =
     hbnd (render item) (\<lambda>s.
     hbnd (h_push items s) (\<lambda>u.
       h_render_all render items children))"

text \<open>
  The \<^verbatim>\<open>array\<close> case after the children are rendered, as \<open>array_schema\<close>;
  \<^verbatim>\<open>deepEqual\<close> reads the store.
\<close>

definition h_array_items :: "(heap \<Rightarrow> hv \<Rightarrow> hv \<Rightarrow> bool outcome) \<Rightarrow> hv \<Rightarrow> hv \<Rightarrow> unit hm" where
  "h_array_items deq schema items =
     hbnd (hread (\<lambda>h. h_elements h items)) (\<lambda>vs.
       if length vs = 1 then h_set_field schema ''items'' (vs ! 0)
       else if length vs > 1 then
         hbnd (hread (\<lambda>h. reduce_items (deq h) (hd vs) (tl vs))) (\<lambda>reduced.
           case reduced of
             Some it \<Rightarrow> h_set_field schema ''items'' it
           | None \<Rightarrow>
               hbnd (h_alloc (CObj [(''anyOf'', items)])) (\<lambda>wrapper.
                 h_set_field schema ''items'' wrapper))
       else hreturn ())"

text \<open>The keys that \<^verbatim>\<open>for (key in x)\<close> visits, as \<open>for_in_entries\<close>.\<close>

fun h_for_in_keys :: "heap \<Rightarrow> hv \<Rightarrow> string list outcome" where
  "h_for_in_keys h (HRef a) =
     (case h_cell h a of
        Some (CObj kvs) \<Rightarrow> Return (map fst (js_order kvs))
      | Some (CArr vs) \<Rightarrow> (if vs = [] then Return [] else Unmodelled)
      | None \<Rightarrow> Unmodelled)"
| "h_for_in_keys h (HStr s) = (if s = [] then Return [] else Unmodelled)"
| "h_for_in_keys h v = Return []"

text \<open>
  The body of the \<^verbatim>\<open>for-in\<close> loop over the properties of one option, for the keys
  still to visit:
  \<^verbatim>\<open>
  const prop = optionSchema.properties[key];
  exclusive.push(key);
  schema.properties[key] = prop;
  \<close>
\<close>

fun h_option_properties :: "hv \<Rightarrow> hv \<Rightarrow> hv \<Rightarrow> string list \<Rightarrow> unit hm" where
  "h_option_properties schema exclusive optionSchema [] = hreturn ()"
| "h_option_properties schema exclusive optionSchema (key # keys) =
     hbnd (hread (\<lambda>h. bnd (h_get h optionSchema ''properties'') (\<lambda>ops. h_get h ops key)))
       (\<lambda>prop.
     hbnd (h_push exclusive (HStr key)) (\<lambda>u.
     hbnd (hread (\<lambda>h. h_get h schema ''properties'')) (\<lambda>ps.
     hbnd (h_set_field ps key prop) (\<lambda>u.
       h_option_properties schema exclusive optionSchema keys))))"

fun h_select_options :: "(hv \<Rightarrow> hv hm) \<Rightarrow> hv \<Rightarrow> hv \<Rightarrow> hv list \<Rightarrow> unit hm" where
  "h_select_options render schema exclusive [] = hreturn ()"
| "h_select_options render schema exclusive (option # options) =
     hbnd (render option) (\<lambda>optionSchema.
     hbnd (hread (\<lambda>h. bnd (h_get h optionSchema ''properties'') (\<lambda>ops. h_for_in_keys h ops)))
       (\<lambda>keys.
     hbnd (h_option_properties schema exclusive optionSchema keys) (\<lambda>u.
       h_select_options render schema exclusive options)))"

text \<open>
  A \<^verbatim>\<open>select\<close> member:
  \<^verbatim>\<open>
  const exclusive = [];
  for (let option of Array.from(member.content)) { ... }
  if (!schema.allOf) { schema.allOf = []; }
  schema.allOf.push({ not: { required: exclusive } });
  \<close>
\<close>

definition h_select_member :: "(hv \<Rightarrow> hv hm) \<Rightarrow> hv \<Rightarrow> hv \<Rightarrow> unit hm" where
  "h_select_member render schema member =
     hbnd (h_alloc (CArr [])) (\<lambda>exclusive.
     hbnd (hread (\<lambda>h. bnd (h_get h member ''content'') (\<lambda>c. h_array_from h c))) (\<lambda>options.
     hbnd (h_select_options render schema exclusive options) (\<lambda>u.
     hbnd (hread (\<lambda>h. h_get h schema ''allOf'')) (\<lambda>allOf.
     hbnd (if \<not> h_truthy allOf
           then hbnd (h_alloc (CArr [])) (\<lambda>fresh. h_set_field schema ''allOf'' fresh)
           else hreturn ()) (\<lambda>u.
     hbnd (hread (\<lambda>h. h_get h schema ''allOf'')) (\<lambda>allOf'.
     hbnd (h_alloc (CObj [(''required'', exclusive)])) (\<lambda>inner.
     hbnd (h_alloc (CObj [(''not'', inner)])) (\<lambda>clause.
       h_push allOf' clause))))))))"

text \<open>
  A \<^verbatim>\<open>ref\<close> member, in both renderers:
  \<^verbatim>\<open>
  ref = dataStructures[member.content.href];
  i--;
  properties.splice.apply(properties, [i, 1].concat(ref.content));
  \<close>
\<close>

definition h_ref_member :: "hv \<Rightarrow> hv \<Rightarrow> hv \<Rightarrow> nat \<Rightarrow> unit hm" where
  "h_ref_member dataStructures member properties i =
     hbnd (hread (\<lambda>h. bnd (h_get h member ''content'') (\<lambda>c. h_get h c ''href''))) (\<lambda>href.
     hbnd (hread (\<lambda>h. h_to_key href)) (\<lambda>name.
     hbnd (hread (\<lambda>h. h_table_get h dataStructures name)) (\<lambda>ref.
     hbnd (hread (\<lambda>h. bnd (h_entry_content h ref) (\<lambda>refContent. h_concat_arg h refContent)))
       (\<lambda>inlined.
       h_splice properties i inlined))))"

text \<open>
  An ordinary member. The description:
  \<^verbatim>\<open>
  if ((member.meta != null ? member.meta.description : undefined) != null) {
    schema.properties[key].description = member.meta.description;
  }
  \<close>
\<close>

definition h_member_description :: "hv \<Rightarrow> hv \<Rightarrow> string \<Rightarrow> unit hm" where
  "h_member_description schema member name =
     hbnd (hread (\<lambda>h. bnd (h_get h member ''meta'') (\<lambda>meta. h_opt_get h meta ''description'')))
       (\<lambda>description.
       if \<not> h_nullish description then
         hbnd (hread (\<lambda>h. bnd (h_get h schema ''properties'') (\<lambda>ps. h_get h ps name)))
           (\<lambda>target.
         hbnd (hread (\<lambda>h. bnd (h_get h member ''meta'') (\<lambda>meta. h_get h meta ''description'')))
           (\<lambda>d.
           h_set_field target ''description'' d))
       else hreturn ())"

text \<open>
  The type attributes:
  \<^verbatim>\<open>
  if (member.attributes != null ? member.attributes.typeAttributes : undefined) {
    typeAttr = member.attributes.typeAttributes;
    if (typeAttr.indexOf("required") !== -1) {
      if (required.indexOf(key) === -1) { required.push(key); }
    }
    if (typeAttr.indexOf("nullable") !== -1) {
      schema.properties[key].type = [schema.properties[key].type, "null"];
    }
  }
  \<close>
\<close>

definition h_member_type_attributes :: "hv \<Rightarrow> hv \<Rightarrow> hv \<Rightarrow> hv \<Rightarrow> string \<Rightarrow> unit hm" where
  "h_member_type_attributes schema required member key name =
     hbnd (hread (\<lambda>h. bnd (h_get h member ''attributes'') (\<lambda>attributes.
                        h_opt_get h attributes ''typeAttributes''))) (\<lambda>typeAttr.
       if h_truthy typeAttr then
         hbnd (hread (\<lambda>h. h_includes_string h typeAttr ''required'')) (\<lambda>req.
         hbnd (if req then
                 hbnd (hread (\<lambda>h. h_elements h required)) (\<lambda>known.
                   if \<not> h_includes_value known key then h_push required key else hreturn ())
               else hreturn ()) (\<lambda>u.
         hbnd (hread (\<lambda>h. h_includes_string h typeAttr ''nullable'')) (\<lambda>nullable.
           if nullable then
             hbnd (hread (\<lambda>h. bnd (h_get h schema ''properties'') (\<lambda>ps. h_get h ps name)))
               (\<lambda>target.
             hbnd (hread (\<lambda>h. bnd (h_get h schema ''properties'') (\<lambda>ps.
                                bnd (h_get h ps name) (\<lambda>prop. h_get h prop ''type''))))
               (\<lambda>t.
             hbnd (h_alloc (CArr [t, HStr ''null''])) (\<lambda>widened.
               h_set_field target ''type'' widened)))
           else hreturn ())))
       else hreturn ())"

text \<open>
  \<^verbatim>\<open>
  key = member.content.key.content;
  schema.properties[key] = renderSchema(member.content.value, dataStructures);
  \<close>
  and the two blocks above.
\<close>

definition h_plain_member :: "(hv \<Rightarrow> hv hm) \<Rightarrow> hv \<Rightarrow> hv \<Rightarrow> hv \<Rightarrow> unit hm" where
  "h_plain_member render schema required member =
     hbnd (hread (\<lambda>h. bnd (h_get h member ''content'') (\<lambda>c.
                        bnd (h_get h c ''key'') (\<lambda>k. h_get h k ''content'')))) (\<lambda>key.
     hbnd (hread (\<lambda>h. h_get h schema ''properties'')) (\<lambda>ps.
     hbnd (hread (\<lambda>h. h_to_key key)) (\<lambda>name.
     hbnd (hread (\<lambda>h. bnd (h_get h member ''content'') (\<lambda>c. h_get h c ''value''))) (\<lambda>val.
     hbnd (render val) (\<lambda>prop.
     hbnd (h_set_field ps name prop) (\<lambda>u.
     hbnd (h_member_description schema member name) (\<lambda>u.
       h_member_type_attributes schema required member key name)))))))"

text \<open>
  The member loop \<^verbatim>\<open>while (i < properties.length)\<close> on the array \<^verbatim>\<open>properties\<close>; the
  first argument is the fuel, one unit for every iteration.
\<close>

fun h_schema_loop ::
  "nat \<Rightarrow> (hv \<Rightarrow> hv hm) \<Rightarrow> hv \<Rightarrow> hv \<Rightarrow> hv \<Rightarrow> hv \<Rightarrow> nat \<Rightarrow> unit hm" where
  "h_schema_loop 0 render dataStructures schema required properties i =
     hbnd (hread (\<lambda>h. h_elements h properties)) (\<lambda>vs.
       if i < length vs then (\<lambda>h. (OutOfFuel, h)) else hreturn ())"
| "h_schema_loop (Suc n) render dataStructures schema required properties i =
     hbnd (hread (\<lambda>h. h_elements h properties)) (\<lambda>vs.
       if i < length vs then
         hbnd (hread (\<lambda>h. h_get h (vs ! i) ''element'')) (\<lambda>e.
           if e = HStr ''ref'' then
             hbnd (h_ref_member dataStructures (vs ! i) properties i) (\<lambda>u.
               h_schema_loop n render dataStructures schema required properties i)
           else if e = HStr ''select'' then
             hbnd (h_select_member render schema (vs ! i)) (\<lambda>u.
               h_schema_loop n render dataStructures schema required properties (Suc i))
           else
             hbnd (h_plain_member render schema required (vs ! i)) (\<lambda>u.
               h_schema_loop n render dataStructures schema required properties (Suc i)))
       else hreturn ())"

text \<open>
  The \<^verbatim>\<open>object\<close> and \<^verbatim>\<open>option\<close> case, after \<^verbatim>\<open>schema.type = "object"\<close> and
  \<^verbatim>\<open>schema.properties = {}\<close>:
  \<^verbatim>\<open>
  var required = [];
  var properties = root.content.slice(0);
  var i = 0;
  while (i < properties.length) { ... }
  if (required.length) { schema.required = required; }
  \<close>
\<close>

definition h_object_members :: "nat \<Rightarrow> (hv \<Rightarrow> hv hm) \<Rightarrow> hv \<Rightarrow> hv \<Rightarrow> hv \<Rightarrow> unit hm" where
  "h_object_members n render dataStructures schema root =
     hbnd (h_alloc (CArr [])) (\<lambda>required.
     hbnd (hread (\<lambda>h. h_get h root ''content'')) (\<lambda>c.
     hbnd (h_slice0_new c) (\<lambda>properties.
     hbnd (h_schema_loop n render dataStructures schema required properties 0) (\<lambda>u.
     hbnd (hread (\<lambda>h. h_length_of h required)) (\<lambda>len.
       if h_truthy len then h_set_field schema ''required'' required else hreturn ())))))"

definition h_object_case :: "nat \<Rightarrow> (hv \<Rightarrow> hv hm) \<Rightarrow> hv \<Rightarrow> hv \<Rightarrow> hv \<Rightarrow> unit hm" where
  "h_object_case n render dataStructures schema root =
     hbnd (h_set_field schema ''type'' (HStr ''object'')) (\<lambda>u.
     hbnd (h_alloc (CObj [])) (\<lambda>ps.
     hbnd (h_set_field schema ''properties'' ps) (\<lambda>u.
       h_object_members n render dataStructures schema root)))"

text \<open>The cases \<^verbatim>\<open>boolean\<close>, \<^verbatim>\<open>string\<close>, \<^verbatim>\<open>number\<close>, the case \<^verbatim>\<open>enum\<close> and the case
  \<^verbatim>\<open>array\<close>.\<close>

definition h_primitive_case :: "hv \<Rightarrow> hv \<Rightarrow> hv \<Rightarrow> unit hm" where
  "h_primitive_case schema root e =
     hbnd (h_set_field schema ''type'' e) (\<lambda>u.
     hbnd (hread (\<lambda>h. bnd (h_get h root ''attributes'') (\<lambda>attributes.
                        h_opt_get h attributes ''default''))) (\<lambda>dflt.
       if \<not> h_nullish dflt then h_set_field schema ''default'' dflt else hreturn ()))"

definition h_enum_case :: "hv \<Rightarrow> hv \<Rightarrow> unit hm" where
  "h_enum_case schema root =
     hbnd (h_alloc (CArr [])) (\<lambda>fresh.
     hbnd (h_set_field schema ''enum'' fresh) (\<lambda>u.
     hbnd (hread (\<lambda>h. bnd (h_get h root ''content'') (\<lambda>c. h_or_empty h c))) (\<lambda>items.
       h_enum_push schema items)))"

definition h_array_case ::
  "(heap \<Rightarrow> hv \<Rightarrow> hv \<Rightarrow> bool outcome) \<Rightarrow> (hv \<Rightarrow> hv hm) \<Rightarrow> hv \<Rightarrow> hv \<Rightarrow> unit hm" where
  "h_array_case deq render schema root =
     hbnd (h_set_field schema ''type'' (HStr ''array'')) (\<lambda>u.
     hbnd (h_alloc (CArr [])) (\<lambda>items.
     hbnd (hread (\<lambda>h. bnd (h_get h root ''content'') (\<lambda>c. h_or_empty h c))) (\<lambda>children.
     hbnd (h_render_all render items children) (\<lambda>u.
       h_array_items deq schema items))))"

text \<open>The code after the \<^verbatim>\<open>switch\<close>, as \<open>finish_schema\<close>.\<close>

definition h_finish_schema :: "hv \<Rightarrow> hv \<Rightarrow> hv hm" where
  "h_finish_schema root schema =
     hbnd (hread (\<lambda>h. bnd (h_get h root ''meta'') (\<lambda>meta. h_opt_get h meta ''description'')))
       (\<lambda>description.
     hbnd (if \<not> h_nullish description then h_set_field schema ''description'' description
           else hreturn ()) (\<lambda>u.
     hbnd (hread (\<lambda>h. bnd (h_get h root ''attributes'') (\<lambda>attributes.
                        h_opt_get h attributes ''typeAttributes''))) (\<lambda>typeAttr.
     hbnd (if h_truthy typeAttr then
             hbnd (hread (\<lambda>h. h_includes_string h typeAttr ''nullable'')) (\<lambda>nullable.
               if nullable then
                 hbnd (hread (\<lambda>h. h_get h schema ''type'')) (\<lambda>t.
                 hbnd (h_alloc (CArr [t, HStr ''null''])) (\<lambda>widened.
                   h_set_field schema ''type'' widened))
               else hreturn ())
           else hreturn ()) (\<lambda>u.
       hreturn schema))))"

text \<open>
  The \<^verbatim>\<open>switch\<close> of \<^verbatim>\<open>renderSchema\<close> for the kind \<open>e\<close> of the element: its result is
  the value of \<^verbatim>\<open>schema\<close> after it, which the \<^verbatim>\<open>default\<close> case replaces by the result
  of the recursive call.
\<close>

definition h_switch ::
  "nat \<Rightarrow> (heap \<Rightarrow> hv \<Rightarrow> hv \<Rightarrow> bool outcome) \<Rightarrow> (hv \<Rightarrow> hv hm) \<Rightarrow> hv \<Rightarrow> hv \<Rightarrow> hv \<Rightarrow> hv \<Rightarrow> hv hm"
  where
  "h_switch n deq render dataStructures schema root e =
     (if e = HStr ''boolean'' \<or> e = HStr ''string'' \<or> e = HStr ''number'' then
        hbnd (h_primitive_case schema root e) (\<lambda>u. hreturn schema)
      else if e = HStr ''enum'' then
        hbnd (h_enum_case schema root) (\<lambda>u. hreturn schema)
      else if e = HStr ''array'' then
        hbnd (h_array_case deq render schema root) (\<lambda>u. hreturn schema)
      else if e = HStr ''object'' \<or> e = HStr ''option'' then
        hbnd (h_object_case n render dataStructures schema root) (\<lambda>u. hreturn schema)
      else
        hbnd (hread (\<lambda>h. h_to_key e)) (\<lambda>name.
        hbnd (hread (\<lambda>h. h_table_get h dataStructures name)) (\<lambda>ref.
          if h_entry_truthy ref then
            hbnd (h_inherit_entry ref root) (\<lambda>combined. render combined)
          else hreturn schema)))"

text \<open>\<^verbatim>\<open>renderSchema(root, dataStructures)\<close> on the store: \<^verbatim>\<open>let schema = {}\<close>, the
  \<^verbatim>\<open>switch\<close> and the code after it. The result is the reference \<open>schema\<close>.\<close>

primrec h_renderSchema ::
  "nat \<Rightarrow> (heap \<Rightarrow> hv \<Rightarrow> hv \<Rightarrow> bool outcome) \<Rightarrow> hv \<Rightarrow> hv \<Rightarrow> hv hm" where
  "h_renderSchema 0 deq dataStructures root = (\<lambda>h. (OutOfFuel, h))"
| "h_renderSchema (Suc n) deq dataStructures root =
     hbnd (h_alloc (CObj [])) (\<lambda>schema.
     hbnd (hread (\<lambda>h. h_get h root ''element'')) (\<lambda>e.
     hbnd (h_switch (Suc n) deq (h_renderSchema n deq dataStructures) dataStructures schema root e)
       (\<lambda>schema'. h_finish_schema root schema')))"

subsection \<open>example.js on the store\<close>

definition h_defaultValue :: "hv \<Rightarrow> hv" where
  "h_defaultValue type =
     (if type = HStr ''boolean'' then HBool True
      else if type = HStr ''number'' then HNum 1
      else if type = HStr ''string'' then HStr ''Hello, world!''
      else HUndefined)"

text \<open>\<^verbatim>\<open>Array.from(xs).map(item => render(item))\<close>: \<^verbatim>\<open>map\<close> creates the array \<open>out\<close> and
  stores every result in it.\<close>

fun h_example_all :: "(hv \<Rightarrow> hv hm) \<Rightarrow> hv \<Rightarrow> hv list \<Rightarrow> unit hm" where
  "h_example_all render out [] = hreturn ()"
| "h_example_all render out (item # items) =
     hbnd (render item) (\<lambda>v.
     hbnd (h_push out v) (\<lambda>u.
       h_example_all render out items))"

text \<open>
  The member loop of the \<^verbatim>\<open>object\<close> case:
  \<^verbatim>\<open>
  } else if (member.element === "select") {
    member = member.content[0].content[0];
  }
  const key = member.content.key.content;
  obj[key] = renderExample(member.content.value, dataStructures);
  \<close>
\<close>

definition h_example_member :: "(hv \<Rightarrow> hv hm) \<Rightarrow> hv \<Rightarrow> hv \<Rightarrow> hv \<Rightarrow> unit hm" where
  "h_example_member render obj member e =
     hbnd (if e = HStr ''select'' then
             hread (\<lambda>h.
               bnd (h_get h member ''content'') (\<lambda>c.
               bnd (h_index0 h c) (\<lambda>option.
               bnd (h_get h option ''content'') (\<lambda>oc.
                 h_index0 h oc))))
           else hreturn member) (\<lambda>member'.
     hbnd (hread (\<lambda>h. bnd (h_get h member' ''content'') (\<lambda>c.
                        bnd (h_get h c ''key'') (\<lambda>k. h_get h k ''content'')))) (\<lambda>key.
     hbnd (hread (\<lambda>h. h_to_key key)) (\<lambda>name.
     hbnd (hread (\<lambda>h. bnd (h_get h member' ''content'') (\<lambda>c. h_get h c ''value''))) (\<lambda>val.
     hbnd (render val) (\<lambda>v.
       h_set_field obj name v)))))"

fun h_example_loop ::
  "nat \<Rightarrow> (hv \<Rightarrow> hv hm) \<Rightarrow> hv \<Rightarrow> hv \<Rightarrow> hv \<Rightarrow> nat \<Rightarrow> unit hm" where
  "h_example_loop 0 render dataStructures obj properties i =
     hbnd (hread (\<lambda>h. h_elements h properties)) (\<lambda>vs.
       if i < length vs then (\<lambda>h. (OutOfFuel, h)) else hreturn ())"
| "h_example_loop (Suc n) render dataStructures obj properties i =
     hbnd (hread (\<lambda>h. h_elements h properties)) (\<lambda>vs.
       if i < length vs then
         hbnd (hread (\<lambda>h. h_get h (vs ! i) ''element'')) (\<lambda>e.
           if e = HStr ''ref'' then
             hbnd (h_ref_member dataStructures (vs ! i) properties i) (\<lambda>u.
               h_example_loop n render dataStructures obj properties i)
           else
             hbnd (h_example_member render obj (vs ! i) e) (\<lambda>u.
               h_example_loop n render dataStructures obj properties (Suc i)))
       else hreturn ())"

text \<open>\<^verbatim>\<open>renderExample(root, dataStructures)\<close> on the store: the result is a primitive
  value, a reference into the tree (\<^verbatim>\<open>return root.content\<close>) or a reference to a new
  cell.\<close>

primrec h_renderExample :: "nat \<Rightarrow> hv \<Rightarrow> hv \<Rightarrow> hv hm" where
  "h_renderExample 0 dataStructures root = (\<lambda>h. (OutOfFuel, h))"
| "h_renderExample (Suc n) dataStructures root =
     hbnd (hread (\<lambda>h. h_get h root ''element'')) (\<lambda>e.
       if e = HStr ''boolean'' \<or> e = HStr ''string'' \<or> e = HStr ''number'' then
         hbnd (hread (\<lambda>h. h_get h root ''content'')) (\<lambda>c.
           hreturn (if \<not> h_nullish c then c else h_defaultValue e))
       else if e = HStr ''enum'' then
         hbnd (hread (\<lambda>h. bnd (h_get h root ''content'') (\<lambda>c. h_index0 h c))) (\<lambda>first.
           h_renderExample n dataStructures first)
       else if e = HStr ''array'' then
         hbnd (hread (\<lambda>h. bnd (h_get h root ''content'') (\<lambda>c. h_or_empty h c))) (\<lambda>items.
         hbnd (h_alloc (CArr [])) (\<lambda>out.
         hbnd (h_example_all (h_renderExample n dataStructures) out items) (\<lambda>u.
           hreturn out)))
       else if e = HStr ''object'' then
         hbnd (h_alloc (CObj [])) (\<lambda>obj.
         hbnd (hread (\<lambda>h. h_get h root ''content'')) (\<lambda>c.
         hbnd (h_slice0_new c) (\<lambda>properties.
         hbnd (h_example_loop (Suc n) (h_renderExample n dataStructures) dataStructures obj
                 properties 0) (\<lambda>u.
           hreturn obj))))
       else
         hbnd (hread (\<lambda>h. h_to_key e)) (\<lambda>name.
         hbnd (hread (\<lambda>h. h_table_get h dataStructures name)) (\<lambda>ref.
           if h_entry_truthy ref then
             hbnd (h_inherit_entry ref root) (\<lambda>combined.
               h_renderExample n dataStructures combined)
           else hreturn HUndefined)))"

section \<open>Elements used in the statements\<close>

text \<open>
  Refract elements as the parser emits them: an element of a kind with a content, an
  element with nothing but its kind, an object member (a key element and a value), a
  member flagged \<^verbatim>\<open>required\<close>, a mixin (\<^verbatim>\<open>ref\<close>) member and a \<^verbatim>\<open>select\<close> member.
\<close>

definition element_of :: "string \<Rightarrow> jv \<Rightarrow> jv" where
  "element_of kind c = Obj [(''element'', Str kind), (''content'', c)]"

definition bare :: "string \<Rightarrow> jv" where
  "bare kind = Obj [(''element'', Str kind)]"

definition key_element :: "string \<Rightarrow> jv" where
  "key_element k = element_of ''string'' (Str k)"

definition member_element :: "string \<Rightarrow> jv \<Rightarrow> jv" where
  "member_element k v =
     element_of ''member'' (Obj [(''key'', key_element k), (''value'', v)])"

definition required_member :: "string \<Rightarrow> jv \<Rightarrow> jv" where
  "required_member k v =
     Obj [(''element'', Str ''member''),
          (''attributes'', Obj [(''typeAttributes'', Arr [Str ''required''])]),
          (''content'', Obj [(''key'', key_element k), (''value'', v)])]"

definition ref_member :: "string \<Rightarrow> jv" where
  "ref_member href = element_of ''ref'' (Obj [(''href'', Str href)])"

definition select_member :: "jv list \<Rightarrow> jv" where
  "select_member options = element_of ''select'' (Arr options)"

section \<open>Predicates on the store\<close>

text \<open>A computation only adds cells: every cell of the store it starts from is there
  afterwards, unchanged.\<close>

definition grows :: "'a hm \<Rightarrow> bool" where
  "grows m = (\<forall>h. length h \<le> length (snd (m h)) \<and> take (length h) (snd (m h)) = h)"

text \<open>
  During a call of \<^verbatim>\<open>inherit\<close> started on the store \<open>h0\<close>: the store has only grown
  but for cells made by the call, and \<open>cv\<close> (the value of \<^verbatim>\<open>combined\<close>) is a cell made by
  the call whose properties refer to other cells made by the call.
\<close>

definition owned :: "nat \<Rightarrow> hv \<Rightarrow> heap \<Rightarrow> bool" where
  "owned n cv h =
     (\<forall>a. cv = HRef a \<longrightarrow>
        n \<le> a \<and> a < length h
        \<and> (\<forall>kvs k b. h ! a = CObj kvs \<longrightarrow> (k, HRef b) \<in> set kvs \<longrightarrow> n \<le> b \<and> b \<noteq> a))"

definition store_inv :: "heap \<Rightarrow> hv \<Rightarrow> heap \<Rightarrow> bool" where
  "store_inv h0 cv h = (length h0 \<le> length h \<and> take (length h0) h = h0 \<and> owned (length h0) cv h)"

definition keeps_inv :: "heap \<Rightarrow> hv \<Rightarrow> 'a hm \<Rightarrow> bool" where
  "keeps_inv h0 cv m = (\<forall>h. store_inv h0 cv h \<longrightarrow> store_inv h0 cv (snd (m h)))"

text \<open>
  For the renderers. A value is \<open>newer m\<close> when it refers to no cell below the address
  \<open>m\<close>, and \<open>within s m\<close> when it refers to no cell but those between \<open>s\<close> and \<open>m\<close>. A
  computation \<open>writes_from b\<close> when it leaves the cells below \<open>b\<close> as they are.
\<close>

definition newer :: "nat \<Rightarrow> hv \<Rightarrow> bool" where
  "newer m x = (\<forall>a. x = HRef a \<longrightarrow> m \<le> a)"

definition within :: "nat \<Rightarrow> nat \<Rightarrow> hv \<Rightarrow> bool" where
  "within s m x = (\<forall>p. x = HRef p \<longrightarrow> s < p \<and> p < m)"

definition writes_from :: "nat \<Rightarrow> 'a hm \<Rightarrow> bool" where
  "writes_from b m =
     (\<forall>h. b \<le> length h \<longrightarrow> length h \<le> length (snd (m h)) \<and> take b (snd (m h)) = take b h)"

text \<open>
  During a call of \<^verbatim>\<open>renderSchema\<close> whose \<^verbatim>\<open>schema\<close> is the cell \<open>s\<close>: the cell is an
  object; its \<^verbatim>\<open>properties\<close>, when a reference, is a cell between \<open>s\<close> and \<open>m\<close> whose
  entries refer to cells from \<open>m\<close> on (the schemas of the members, made after it); its
  \<^verbatim>\<open>allOf\<close> and \<^verbatim>\<open>enum\<close>, when references, are cells from \<open>m\<close> on. These are the
  cells that the code writes to after reading them from \<^verbatim>\<open>schema\<close>.
\<close>

definition props_newer :: "nat \<Rightarrow> heap \<Rightarrow> addr \<Rightarrow> bool" where
  "props_newer m h p = (\<forall>ps k c. h ! p = CObj ps \<longrightarrow> (k, HRef c) \<in> set ps \<longrightarrow> m \<le> c)"

definition schema_inv :: "nat \<Rightarrow> nat \<Rightarrow> heap \<Rightarrow> bool" where
  "schema_inv s m h =
     (s < m \<and> m \<le> length h
      \<and> (\<exists>kvs. h ! s = CObj kvs
            \<and> (\<forall>p. h_lookup kvs ''properties'' = HRef p \<longrightarrow> s < p \<and> p < m \<and> props_newer m h p)
            \<and> newer m (h_lookup kvs ''allOf'')
            \<and> newer m (h_lookup kvs ''enum'')))"

definition keeps_schema :: "nat \<Rightarrow> nat \<Rightarrow> 'a hm \<Rightarrow> bool" where
  "keeps_schema s m f =
     (\<forall>h. schema_inv s m h \<longrightarrow>
        length h \<le> length (snd (f h)) \<and> take s (snd (f h)) = take s h
        \<and> schema_inv s m (snd (f h)))"

text \<open>
  A computation that, run on the store \<open>h\<close>, leaves the cells below \<open>s\<close> as they are and
  returns a schema cell from \<open>s\<close> on; and a computation that only adds cells and returns
  a new schema cell, on every store.
\<close>

definition returns_schema :: "nat \<Rightarrow> hv hm \<Rightarrow> heap \<Rightarrow> bool" where
  "returns_schema s f h =
     (length h \<le> length (snd (f h)) \<and> take s (snd (f h)) = take s h
      \<and> (\<forall>v. fst (f h) = Return v \<longrightarrow>
            (\<exists>s' m'. v = HRef s' \<and> s \<le> s' \<and> schema_inv s' m' (snd (f h)))))"


definition makes_schema :: "hv hm \<Rightarrow> bool" where
  "makes_schema f =
     (\<forall>h. length h \<le> length (snd (f h)) \<and> take (length h) (snd (f h)) = h
        \<and> (\<forall>v. fst (f h) = Return v \<longrightarrow>
              (\<exists>s m. v = HRef s \<and> length h \<le> s \<and> schema_inv s m (snd (f h)))))"

text \<open>
  A store for the statements: the array type \<^verbatim>\<open>{element: "array", content: [{element:
  "string"}]}\<close> at address 2 and the element \<^verbatim>\<open>{element: "Items", content: [{element:
  "number"}]}\<close> that inherits from it at address 5, its only child at address 3.
\<close>

definition example_store :: heap where
  "example_store =
     [CObj [(''element'', HStr ''string'')],
      CArr [HRef 0],
      CObj [(''element'', HStr ''array''), (''content'', HRef 1)],
      CObj [(''element'', HStr ''number'')],
      CArr [HRef 3],
      CObj [(''element'', HStr ''Items''), (''content'', HRef 4)]]"

section \<open>Basic facts\<close>

lemmas element_defs = element_of_def bare_def key_element_def member_element_def
  required_member_def ref_member_def select_member_def

lemma lookup_Nil [simp]: "lookup [] k = Undefined"
  by (simp add: lookup_def)

lemma lookup_Cons [simp]: "lookup ((k', v) # kvs) k = (if k' = k then v else lookup kvs k)"
  by (simp add: lookup_def)

declare uniqueMembers_loop.simps [simp del]

text \<open>The keys of the elements are no array indices: enumeration leaves their order.\<close>

lemmas order_defs = js_order_def is_index_def is_digit_def

lemmas inherit_defs = inherit_def deep_copy_def inherit_field_def inherit_content_def
  uniqueMembers_def uniqueMembers_loop.simps uniqueMembers_step_def nth_js_def
  includes_value_def splice1_def order_defs

lemma bnd_Return_iff: "bnd m f = Return y \<longleftrightarrow> (\<exists>x. m = Return x \<and> f x = Return y)"
  by (cases m) auto

lemma lookup_put: "lookup (put s k' v) k = (if k = k' then v else lookup s k)"
  by (induction s) (auto simp: lookup_def)

text \<open>The code after the \<^verbatim>\<open>switch\<close> leaves an element without \<^verbatim>\<open>meta\<close> and
  \<^verbatim>\<open>attributes\<close> alone, and never touches a key other than \<^verbatim>\<open>description\<close> and
  \<^verbatim>\<open>type\<close>.\<close>

lemma finish_schema_plain:
  "get root ''meta'' = Return Undefined \<Longrightarrow> get root ''attributes'' = Return Undefined \<Longrightarrow>
   finish_schema root schema = Return schema"
  by (simp add: finish_schema_def opt_get_def)

lemma finish_schema_lookup:
  assumes "finish_schema root s = Return s'" and "k \<noteq> ''description''" and "k \<noteq> ''type''"
  shows "lookup s' k = lookup s k"
  using assms
  by (auto simp: finish_schema_def bnd_Return_iff lookup_put split: if_splits)

section \<open>The inheritance resolver\<close>

text \<open>
  Claim C2. The claim: when \<^verbatim>\<open>derived\<close> has content and neither content is
  collection-shaped, \<^verbatim>\<open>resolve(base, derived)\<close> returns an element whose content is
  derived's, and the merge does not fail. The code: the overwrite branch assigns to the
  undeclared name \<^verbatim>\<open>combine\<close> (the result is \<^verbatim>\<open>combined\<close>), so for every pair of string
  elements with a non-empty derived string the call throws a ReferenceError.
\<close>

theorem scalar_content_throws_C2:
  "inherit (element_of ''string'' (Str s)) (element_of name (Str (c # cs))) = Throw ReferenceError"
  by (simp add: element_defs inherit_defs)

text \<open>
  The defect of \<^verbatim>\<open>uniqueMembers\<close>: after \<^verbatim>\<open>content.splice(i, 1)\<close> the loop continues
  without decrementing \<open>i\<close>, so it looks again at an entry it has already kept. With
  base \<^verbatim>\<open>[id]\<close> and derived \<^verbatim>\<open>[id]\<close> it removes base's member at index 0, finds
  derived's member there, removes it as well, and reads \<^verbatim>\<open>content[0].element\<close> of the
  empty array: a TypeError, whatever the two values are.
\<close>

lemma same_key_members_throw:
  "inherit (element_of ''object'' (Arr [member_element ''id'' v]))
           (element_of name (Arr [member_element ''id'' w])) = Throw TypeError"
  by (simp add: element_defs inherit_defs)

subsection \<open>The loop against the comment\<close>

lemma step_member_key:
  assumes "n < length content"
  shows "uniqueMembers_step content (int n) known =
     (case member_key (content ! n) of
        Return None \<Rightarrow> Return (content, int n - 1, known)
      | Return (Some key) \<Rightarrow>
          bnd (includes_value known key) (\<lambda>found.
            if found then Return (splice1 content n, int n, known)
            else Return (content, int n - 1, known @ [key]))
      | Throw e \<Rightarrow> Throw e
      | OutOfFuel \<Rightarrow> OutOfFuel
      | Unmodelled \<Rightarrow> Unmodelled)"
proof -
  let ?x = "content ! n"
  show ?thesis
  proof (cases "get ?x ''element''")
    case e: (Return e)
    show ?thesis
    proof (cases "e = Str ''member''")
      case True
      show ?thesis
      proof (cases "get ?x ''content''")
        case c: (Return c)
        show ?thesis
        proof (cases "get c ''key''")
          case k: (Return k)
          show ?thesis
            using assms e True c k
            by (cases "get k ''content''")
              (simp_all add: uniqueMembers_step_def member_key_def nth_js_def cong: if_cong)
        qed (use assms e True c in \<open>simp_all add: uniqueMembers_step_def member_key_def nth_js_def\<close>)
      qed (use assms e True in \<open>simp_all add: uniqueMembers_step_def member_key_def nth_js_def\<close>)
    qed (use assms e in \<open>simp_all add: uniqueMembers_step_def member_key_def nth_js_def\<close>)
  qed (use assms in \<open>simp_all add: uniqueMembers_step_def member_key_def nth_js_def\<close>)
qed

lemma harmless_suffix: "harmless (P @ Q) \<Longrightarrow> harmless Q"
  by (induction P) auto

lemma splice1_middle: "splice1 (P @ x # S) (length P) = P @ S"
  by (simp add: splice1_def)

lemma loop_keep_last:
  assumes "list_all entry_ok (P @ T)" and "harmless (P @ T)"
    and "set K = {key. \<exists>y\<in>set T. member_key y = Return (Some key)}"
  shows "uniqueMembers_loop (P @ keep_last T) (int (length P) - 1) K = Return (keep_last (P @ T))"
  using assms
proof (induction P arbitrary: T K rule: rev_induct)
  case Nil
  show ?case by (subst uniqueMembers_loop.simps) simp
next
  case (snoc x P)
  let ?S = "keep_last T"
  have ok_x: "entry_ok x" using snoc.prems(1) by simp
  have all': "list_all entry_ok (P @ x # T)" and harm': "harmless (P @ x # T)"
    using snoc.prems(1,2) by simp_all
  have idx: "(P @ [x]) @ ?S = P @ x # ?S" by simp
  have at: "(P @ x # ?S) ! length P = x" by simp
  have len: "length P < length (P @ x # ?S)" by simp
  note step = step_member_key [OF len, of K, unfolded at]
  have unfold: "uniqueMembers_loop (P @ x # ?S) (int (length P)) K =
        (case uniqueMembers_step (P @ x # ?S) (int (length P)) K of
           Return (content', i', known') \<Rightarrow> uniqueMembers_loop content' i' known'
         | Throw e \<Rightarrow> Throw e | OutOfFuel \<Rightarrow> OutOfFuel | Unmodelled \<Rightarrow> Unmodelled)"
    by (subst uniqueMembers_loop.simps) simp
  show ?case
  proof (cases "member_key x")
    case (Return mk)
    show ?thesis
    proof (cases mk)
      case None
      have no: "\<not> overridden x T" using Return None by (simp add: overridden_def)
      have K': "set K = {key. \<exists>y\<in>set (x # T). member_key y = Return (Some key)}"
        using snoc.prems(3) Return None by auto
      from snoc.IH [OF all' harm' K'] no
      have "uniqueMembers_loop (P @ x # ?S) (int (length P) - 1) K = Return (keep_last (P @ x # T))"
        by simp
      then show ?thesis
        using unfold step Return None by (simp add: idx)
    next
      case (Some key)
      have prim: "is_primitive key" using ok_x Return Some by (simp add: entry_ok_def)
      show ?thesis
      proof (cases "key \<in> set K")
        case False
        have no: "\<not> overridden x T"
          using Return Some False snoc.prems(3) by (auto simp: overridden_def list_ex_iff)
        have K': "set (K @ [key]) = {key. \<exists>y\<in>set (x # T). member_key y = Return (Some key)}"
          using snoc.prems(3) Return Some by auto
        from snoc.IH [OF all' harm' K'] no
        have "uniqueMembers_loop (P @ x # ?S) (int (length P) - 1) (K @ [key])
              = Return (keep_last (P @ x # T))"
          by simp
        then show ?thesis
          using unfold step Return Some False prim by (simp add: idx includes_value_def)
      next
        case True
        have yes: "overridden x T"
          using Return Some True snoc.prems(3) by (auto simp: overridden_def list_ex_iff)
        from harmless_suffix [OF harm'] yes obtain y T' where T: "T = y # T'"
          and y: "member_key y = Return None"
          by (cases T) auto
        have Sy: "?S = y # keep_last T'" using T y by (simp add: overridden_def)
        have K': "set K = {key. \<exists>y\<in>set (x # T). member_key y = Return (Some key)}"
          using snoc.prems(3) Return Some True by auto
        from snoc.IH [OF all' harm' K'] yes
        have ih: "uniqueMembers_loop (P @ ?S) (int (length P) - 1) K
                  = Return (keep_last (P @ x # T))"
          by simp
        have first: "uniqueMembers_loop (P @ x # ?S) (int (length P)) K
                     = uniqueMembers_loop (P @ ?S) (int (length P)) K"
          using unfold step Return Some True prim
          by (simp add: includes_value_def splice1_middle)
        have len2: "length P < length (P @ y # keep_last T')" by simp
        have at2: "(P @ y # keep_last T') ! length P = y" by simp
        have second: "uniqueMembers_loop (P @ ?S) (int (length P)) K
                      = uniqueMembers_loop (P @ ?S) (int (length P) - 1) K"
          unfolding Sy
          by (subst uniqueMembers_loop.simps)
            (simp add: step_member_key [OF len2, of K, unfolded at2] y)
        show ?thesis using first second ih by (simp add: idx)
      qed
    qed
  qed (use ok_x in \<open>simp_all add: entry_ok_def\<close>)
qed

lemma put_put: "put (put kvs k a) k b = put kvs k b"
  by (induction kvs) auto

lemma push_all_content:
  "lookup kvs ''content'' = Arr ys \<Longrightarrow>
   push_all (Obj kvs) items = Return (Obj (put kvs ''content'' (Arr (ys @ items))))"
proof (induction items arbitrary: kvs ys)
  case Nil
  then have "put kvs ''content'' (Arr ys) = kvs"
    by (induction kvs) (auto split: if_splits)
  then show ?case by simp
next
  case (Cons item items)
  have "lookup (put kvs ''content'' (Arr (ys @ [item]))) ''content'' = Arr (ys @ [item])"
    by (simp add: lookup_put)
  from Cons.IH [OF this] Cons.prems show ?case by (simp add: put_put)
qed

lemma keep_last_append:
  "\<exists>kept. keep_last (bs @ ds) = kept @ keep_last ds \<and> set kept \<subseteq> set bs"
proof (induction bs)
  case Nil
  show ?case by simp
next
  case (Cons b bs)
  then obtain kept where "keep_last (bs @ ds) = kept @ keep_last ds" "set kept \<subseteq> set bs"
    by blast
  then show ?case
    by (cases "overridden b (bs @ ds)") (auto intro: exI [of _ "b # kept"])
qed

lemma keep_last_key:
  "filter (\<lambda>x. member_key x = Return (Some key)) (keep_last xs) =
     (if filter (\<lambda>x. member_key x = Return (Some key)) xs = [] then []
      else [last (filter (\<lambda>x. member_key x = Return (Some key)) xs)])"
proof (induction xs)
  case Nil
  show ?case by simp
next
  case (Cons x xs)
  show ?case
  proof (cases "member_key x = Return (Some key)")
    case True
    then have "overridden x xs \<longleftrightarrow> filter (\<lambda>x. member_key x = Return (Some key)) xs \<noteq> []"
      by (auto simp: overridden_def list_ex_iff filter_empty_conv)
    with True Cons show ?thesis by auto
  next
    case False
    with Cons show ?thesis by auto
  qed
qed

text \<open>
  Claim C3, as amended. For \<^verbatim>\<open>inherit(base, derived)\<close> on member lists (the first entry
  of base's content is a member; base is plain JSON, the entries are members with
  primitive keys or other elements) that are harmless in the sense above: the content of
  the result is the concatenated base-then-derived sequence without the overridden
  entries. Its part that comes from derived stands last, after the entries kept from
  base; and of every key that derived declares, such as \<^verbatim>\<open>id\<close>, the result holds exactly
  one member, the last one that derived declares. So derived's \<^verbatim>\<open>id\<close> keeps derived's
  position; it does not move to where base's \<^verbatim>\<open>id\<close> was. (Lists that are not harmless
  meet the defect above and are left out here.)
\<close>

theorem override_keeps_last_C3:
  assumes "json_copy_list bs = bs"
    and "bs = b # rest" and "member_key b = Return (Some k0)"
    and "list_all entry_ok (bs @ ds)"
    and "harmless (bs @ ds)"
  shows "inherit (element_of kind (Arr bs)) (element_of name (Arr ds))
           = Return (element_of kind (Arr (keep_last (bs @ ds))))
     \<and> (\<exists>kept. keep_last (bs @ ds) = kept @ keep_last ds \<and> set kept \<subseteq> set bs)
     \<and> (\<forall>key. (\<exists>d\<in>set ds. member_key d = Return (Some key)) \<longrightarrow>
            filter (\<lambda>x. member_key x = Return (Some key)) (keep_last (bs @ ds))
            = [last (filter (\<lambda>x. member_key x = Return (Some key)) ds)])"
proof -
  have loop: "uniqueMembers_loop (bs @ ds) (int (length (bs @ ds)) - 1) []
              = Return (keep_last (bs @ ds))"
    using loop_keep_last [of "bs @ ds" "[]" "[]"] assms(4,5) by simp
  have first: "get b ''element'' = Return (Str ''member'')"
    using assms(3) by (auto simp: member_key_def bnd_Return_iff split: if_splits)
  have pushed: "push_all (Obj [(''element'', Str kind), (''content'', Arr bs)]) ds
        = Return (Obj [(''element'', Str kind), (''content'', Arr (bs @ ds))])"
    using push_all_content [of "[(''element'', Str kind), (''content'', Arr bs)]" bs ds]
    by simp
  have main: "inherit (element_of kind (Arr bs)) (element_of name (Arr ds))
           = Return (element_of kind (Arr (keep_last (bs @ ds))))"
    using assms(1,2) first loop pushed
    by (simp add: element_of_def inherit_def deep_copy_def inherit_field_def inherit_content_def
        uniqueMembers_def nth_js_def order_defs)
  have key: "filter (\<lambda>x. member_key x = Return (Some key)) (keep_last (bs @ ds))
            = [last (filter (\<lambda>x. member_key x = Return (Some key)) ds)]"
    if "\<exists>d\<in>set ds. member_key d = Return (Some key)" for key
  proof -
    from that have ne: "filter (\<lambda>x. member_key x = Return (Some key)) ds \<noteq> []"
      by (auto simp: filter_empty_conv)
    then show ?thesis
      using keep_last_key [of key "bs @ ds"] by simp
  qed
  show ?thesis using main keep_last_append [of bs ds] key by blast
qed

theorem override_keeps_last_C3_witness:
  "json_copy_list [member_element ''id'' (bare ''number''), ref_member ''Timestamps'']
     = [member_element ''id'' (bare ''number''), ref_member ''Timestamps'']
   \<and> member_key (member_element ''id'' (bare ''number'')) = Return (Some (Str ''id''))
   \<and> list_all entry_ok ([member_element ''id'' (bare ''number''), ref_member ''Timestamps'']
         @ [member_element ''id'' (bare ''string'')])
   \<and> harmless ([member_element ''id'' (bare ''number''), ref_member ''Timestamps'']
         @ [member_element ''id'' (bare ''string'')])
   \<and> inherit
         (element_of ''object'' (Arr [member_element ''id'' (bare ''number''), ref_member ''Timestamps'']))
         (element_of ''Base'' (Arr [member_element ''id'' (bare ''string'')]))
       = Return (element_of ''object''
           (Arr (keep_last ([member_element ''id'' (bare ''number''), ref_member ''Timestamps'']
                            @ [member_element ''id'' (bare ''string'')]))))
   \<and> filter (\<lambda>x. member_key x = Return (Some (Str ''id'')))
         (keep_last ([member_element ''id'' (bare ''number''), ref_member ''Timestamps'']
                     @ [member_element ''id'' (bare ''string'')]))
       = [member_element ''id'' (bare ''string'')]"
proof -
  let ?bs = "[member_element ''id'' (bare ''number''), ref_member ''Timestamps'']"
  let ?ds = "[member_element ''id'' (bare ''string'')]"
  have keys: "member_key (member_element ''id'' (bare ''number'')) = Return (Some (Str ''id''))"
    "member_key (member_element ''id'' (bare ''string'')) = Return (Some (Str ''id''))"
    "member_key (ref_member ''Timestamps'') = Return None"
    by (simp_all add: member_key_def element_defs)
  have a1: "json_copy_list ?bs = ?bs"
    by (simp add: element_defs order_defs)
  have a2: "?bs = member_element ''id'' (bare ''number'') # [ref_member ''Timestamps'']"
    by simp
  have a4: "list_all entry_ok (?bs @ ?ds)"
    by (simp add: entry_ok_def keys)
  have a5: "harmless (?bs @ ?ds)"
    by (simp add: overridden_def keys)
  note t = override_keeps_last_C3 [OF a1 a2 keys(1) a4 a5, of "''object''" "''Base''"]
  have d: "\<exists>d\<in>set ?ds. member_key d = Return (Some (Str ''id''))"
    by (simp add: keys)
  have l: "last (filter (\<lambda>x. member_key x = Return (Some (Str ''id''))) ?ds)
           = member_element ''id'' (bare ''string'')"
    by (simp add: keys)
  from t d have f: "filter (\<lambda>x. member_key x = Return (Some (Str ''id''))) (keep_last (?bs @ ?ds))
      = [last (filter (\<lambda>x. member_key x = Return (Some (Str ''id''))) ?ds)]"
    by blast
  from t have i: "inherit (element_of ''object'' (Arr ?bs)) (element_of ''Base'' (Arr ?ds))
       = Return (element_of ''object'' (Arr (keep_last (?bs @ ?ds))))"
    by blast
  show ?thesis
    using a1 keys(1) a4 a5 i f l by (simp only:)
qed

text \<open>
  The claim as stated (the surviving member stands where the first occurrence was, not
  at derived's position) fails: with base \<^verbatim>\<open>[id: number, mixin]\<close> and derived
  \<^verbatim>\<open>[id: string]\<close> the result is \<^verbatim>\<open>[mixin, id: string]\<close>; derived's member is last,
  behind the mixin, and index 0, where base's \<^verbatim>\<open>id\<close> was, holds the mixin.
\<close>

theorem override_position_C3_counterexample:
  "inherit
     (element_of ''object'' (Arr [member_element ''id'' (bare ''number''), ref_member ''Timestamps'']))
     (element_of ''Base'' (Arr [member_element ''id'' (bare ''string'')]))
   = Return (element_of ''object''
       (Arr [ref_member ''Timestamps'', member_element ''id'' (bare ''string'')]))"
  by (simp add: element_defs inherit_defs)

section \<open>The schema renderer\<close>

text \<open>
  Claim C5. The claim: with \<^verbatim>\<open>Base\<close> an object with the member \<^verbatim>\<open>id: number\<close> and a root
  of kind \<^verbatim>\<open>Base\<close> with the required member \<^verbatim>\<open>id: string\<close>, \<^verbatim>\<open>renderSchema\<close> returns
  \<^verbatim>\<open>{type: "object", properties: {id: {type: "string"}}, required: ["id"]}\<close>. The code:
  the call of \<^verbatim>\<open>inherit\<close> throws the TypeError of \<open>same_key_members_throw\<close>, and \<^verbatim>\<open>renderSchema\<close> does
  not catch it, for any amount of fuel and any \<^verbatim>\<open>deepEqual\<close>.
\<close>

theorem end_to_end_override_throws_C5:
  "renderSchema (Suc n) deq
     [(''Base'', element_of ''object'' (Arr [member_element ''id'' (bare ''number'')]))]
     (element_of ''Base'' (Arr [required_member ''id'' (bare ''string'')]))
   = Throw TypeError"
  by (simp add: element_defs inherit_defs table_get_def)

text \<open>
  Claim C1. The claim: a \<^verbatim>\<open>ref\<close> member whose target is absent from the symbol table is
  skipped silently by both renderers. The code: both member loops read
  \<^verbatim>\<open>ref.content\<close> without testing \<^verbatim>\<open>ref\<close> (the lookup of a named type, in the
  \<^verbatim>\<open>default\<close> case of the same functions, is guarded by \<^verbatim>\<open>if (ref)\<close>), so an object
  whose first member is such a mixin makes both renderers throw a TypeError, whatever
  members follow.
\<close>

theorem unresolved_mixin_throws_C1:
  assumes "map_of dataStructures href = None"
  shows "renderSchema (Suc (Suc n)) deq dataStructures
           (element_of ''object'' (Arr (ref_member href # members))) = Throw TypeError
       \<and> renderExample (Suc (Suc n)) dataStructures
           (element_of ''object'' (Arr (ref_member href # members))) = Throw TypeError"
  using assms by (simp add: element_defs table_get_def)

theorem unresolved_mixin_throws_C1_witness:
  "map_of ([] :: (string \<times> jv) list) ''Missing'' = None
   \<and> renderSchema (Suc (Suc 0)) deepEqual []
        (element_of ''object'' (Arr [ref_member ''Missing'', member_element ''a'' (bare ''string'')]))
      = Throw TypeError
   \<and> renderExample (Suc (Suc 0)) []
        (element_of ''object'' (Arr [ref_member ''Missing'', member_element ''a'' (bare ''string'')]))
      = Throw TypeError"
  using unresolved_mixin_throws_C1 [of "[]" "''Missing''" 0 deepEqual "[member_element ''a'' (bare ''string'')]"]
  by simp




subsection \<open>Arrays\<close>

lemma deepEqual_props_all:
  "(\<And>k v. (k, v) \<in> set kvs \<Longrightarrow> deepEqual v (lookup kvs' k) = Return True)
   \<Longrightarrow> deepEqual_props kvs kvs' = Return True"
  by (induction kvs) auto

lemma lookup_distinct: "distinct (map fst kvs) \<Longrightarrow> (k, v) \<in> set kvs \<Longrightarrow> lookup kvs k = v"
  by (simp add: lookup_def)

text \<open>\<^verbatim>\<open>deepEqual\<close> accepts a value against itself.\<close>

lemma deepEqual_refl:
  "distinct_keys v \<Longrightarrow> deepEqual v v = Return True"
  "distinct_keys_list xs \<Longrightarrow> deepEqual_list xs xs = Return True"
  "distinct_keys_props kvs \<Longrightarrow> (k, x) \<in> set kvs \<Longrightarrow> deepEqual x x = Return True"
proof (induction v and xs and kvs arbitrary: and and k x
    rule: distinct_keys_distinct_keys_list_distinct_keys_props.induct)
  case (2 kvs)
  then show ?case
    by (auto intro!: deepEqual_props_all simp: lookup_distinct)
qed auto

text \<open>The reduction compares every item with the next one, from the left, and stops at
  the first pair that \<^verbatim>\<open>deepEqual\<close> rejects.\<close>

lemma reduce_items_accept:
  "(\<And>i. Suc i < length (l # rs) \<Longrightarrow> deq ((l # rs) ! i) ((l # rs) ! Suc i) = Return True)
   \<Longrightarrow> reduce_items deq l rs = Return (Some (last (l # rs)))"
proof (induction rs arbitrary: l)
  case Nil
  show ?case by simp
next
  case (Cons r rs)
  have "deq l r = Return True" using Cons.prems [of 0] by simp
  moreover have "reduce_items deq r rs = Return (Some (last (r # rs)))"
  proof (rule Cons.IH)
    fix i assume "Suc i < length (r # rs)"
    then show "deq ((r # rs) ! i) ((r # rs) ! Suc i) = Return True"
      using Cons.prems [of "Suc i"] by simp
  qed
  ultimately show ?case by simp
qed

lemma reduce_items_reject:
  "Suc i < length (l # rs) \<Longrightarrow> deq ((l # rs) ! i) ((l # rs) ! Suc i) = Return False
   \<Longrightarrow> (\<And>j. j < i \<Longrightarrow> deq ((l # rs) ! j) ((l # rs) ! Suc j) = Return True)
   \<Longrightarrow> reduce_items deq l rs = Return None"
proof (induction rs arbitrary: l i)
  case Nil
  then show ?case by simp
next
  case (Cons r rs)
  show ?case
  proof (cases i)
    case 0
    with Cons.prems(2) show ?thesis by simp
  next
    case (Suc i')
    have "deq l r = Return True" using Cons.prems(3) [of 0] Suc by simp
    moreover have "reduce_items deq r rs = Return None"
    proof (rule Cons.IH [of i'])
      show "Suc i' < length (r # rs)" using Cons.prems(1) Suc by simp
      show "deq ((r # rs) ! i') ((r # rs) ! Suc i') = Return False"
        using Cons.prems(2) Suc by simp
      fix j assume "j < i'"
      then show "deq ((r # rs) ! j) ((r # rs) ! Suc j) = Return True"
        using Cons.prems(3) [of "Suc j"] Suc by simp
    qed
    ultimately show ?thesis by simp
  qed
qed

lemma render_all_list_all2:
  "render_all render children = Return items \<Longrightarrow>
   list_all2 (\<lambda>c i. \<exists>s. render c = Return s \<and> i = Obj s) children items"
  by (induction children arbitrary: items) (auto simp: bnd_Return_iff)

lemma array_schema_single:
  "length items = 1 \<Longrightarrow>
   array_schema deq items = Return [(''type'', Str ''array''), (''items'', items ! 0)]"
  by (simp add: array_schema_def)

lemma array_schema_accept:
  assumes "2 \<le> length items"
    and "\<And>i. Suc i < length items \<Longrightarrow> deq (items ! i) (items ! Suc i) = Return True"
  shows "array_schema deq items = Return [(''type'', Str ''array''), (''items'', last items)]"
proof -
  from assms(1) obtain l rs where items: "items = l # rs" and rs: "rs \<noteq> []"
    by (cases items) (auto simp: Suc_le_eq)
  from reduce_items_accept [of l rs deq] assms(2)
  have "reduce_items deq l rs = Return (Some (last (l # rs)))"
    unfolding items by blast
  with items rs show ?thesis by (simp add: array_schema_def)
qed

lemma array_schema_same:
  assumes "items \<noteq> []" and "\<forall>x\<in>set items. x = s" and "distinct_keys s"
  shows "array_schema deepEqual items = Return [(''type'', Str ''array''), (''items'', s)]"
proof (cases "length items = 1")
  case True
  then obtain x where "items = [x]" by (cases items) auto
  with assms(2) True show ?thesis by (simp add: array_schema_def)
next
  case False
  with assms(1) have two: "2 \<le> length items" by (cases items) (auto simp: Suc_le_eq)
  have "deepEqual (items ! i) (items ! Suc i) = Return True" if "Suc i < length items" for i
  proof -
    from that assms(2) have "items ! i = s" "items ! Suc i = s" by auto
    with deepEqual_refl(1) [OF assms(3)] show ?thesis by simp
  qed
  then have
    "array_schema deepEqual items = Return [(''type'', Str ''array''), (''items'', last items)]"
    using two by (intro array_schema_accept) auto
  moreover have "last items = s" using assms(1,2) by simp
  ultimately show ?thesis by simp
qed

lemma array_schema_reject:
  assumes "Suc i < length items"
    and "deq (items ! i) (items ! Suc i) = Return False"
    and "\<And>j. j < i \<Longrightarrow> deq (items ! j) (items ! Suc j) = Return True"
  shows "array_schema deq items
         = Return [(''type'', Str ''array''), (''items'', Obj [(''anyOf'', Arr items)])]"
proof -
  from assms(1) obtain l rs where items: "items = l # rs" and rs: "rs \<noteq> []"
    by (cases items) fastforce+
  from reduce_items_reject [of i l rs deq] assms
  have "reduce_items deq l rs = Return None"
    unfolding items by blast
  with items rs show ?thesis by (simp add: array_schema_def)
qed

lemma finish_schema_bnd_lookup:
  assumes "bnd m (finish_schema root) = Return schema" and "m = Return sch"
  shows "lookup schema ''items'' = lookup sch ''items''"
  using assms finish_schema_lookup [of root sch schema "''items''"] by simp

text \<open>
  Claim C6, as amended. For an array element whose children render to the schemas
  \<open>items\<close> (in child order, one per child): \<^verbatim>\<open>renderSchema\<close> returns what the code
  after the \<^verbatim>\<open>switch\<close> makes of the schema of the \<^verbatim>\<open>array\<close> case, and that code leaves
  \<^verbatim>\<open>items\<close> alone. A single child becomes \<^verbatim>\<open>items\<close> with no call of \<^verbatim>\<open>deepEqual\<close>
  (whatever the comparison is). When all children render to one and the same schema,
  \<^verbatim>\<open>items\<close> is that schema. When there are at least two children and \<^verbatim>\<open>deepEqual\<close>
  accepts the schema of every child against that of the next child, \<^verbatim>\<open>items\<close> is the
  schema of the last child. When \<^verbatim>\<open>deepEqual\<close> rejects the schema of a child against
  that of the next child, having accepted the pairs before, \<^verbatim>\<open>items\<close> is
  \<^verbatim>\<open>{anyOf: items}\<close>, holding every child's schema in child order.
\<close>

theorem array_items_C6:
  assumes "get root ''element'' = Return (Str ''array'')"
    and "get root ''content'' = Return (Arr children)"
    and "render_all (renderSchema n deepEqual dataStructures) children = Return items"
  shows "renderSchema (Suc n) deepEqual dataStructures root
           = bnd (array_schema deepEqual items) (finish_schema root)
    \<and> (\<forall>sch schema. array_schema deepEqual items = Return sch
          \<and> renderSchema (Suc n) deepEqual dataStructures root = Return schema
          \<longrightarrow> lookup schema ''items'' = lookup sch ''items'')
    \<and> (get root ''meta'' = Return Undefined \<and> get root ''attributes'' = Return Undefined
          \<longrightarrow> renderSchema (Suc n) deepEqual dataStructures root = array_schema deepEqual items)
    \<and> list_all2 (\<lambda>c i. \<exists>s. renderSchema n deepEqual dataStructures c = Return s \<and> i = Obj s)
          children items
    \<and> (length items = 1
          \<longrightarrow> (\<forall>deq. array_schema deq items
                 = Return [(''type'', Str ''array''), (''items'', items ! 0)]))
    \<and> (items \<noteq> [] \<and> (\<forall>x\<in>set items. x = s) \<and> distinct_keys s
          \<longrightarrow> array_schema deepEqual items = Return [(''type'', Str ''array''), (''items'', s)])
    \<and> (2 \<le> length items
          \<and> (\<forall>i. Suc i < length items \<longrightarrow> deepEqual (items ! i) (items ! Suc i) = Return True)
          \<longrightarrow> array_schema deepEqual items
              = Return [(''type'', Str ''array''), (''items'', last items)])
    \<and> (\<forall>i. Suc i < length items \<and> deepEqual (items ! i) (items ! Suc i) = Return False
            \<and> (\<forall>j<i. deepEqual (items ! j) (items ! Suc j) = Return True)
          \<longrightarrow> array_schema deepEqual items
              = Return [(''type'', Str ''array''), (''items'', Obj [(''anyOf'', Arr items)])])"
proof -
  have sc: "renderSchema (Suc n) deepEqual dataStructures root
            = bnd (array_schema deepEqual items) (finish_schema root)"
    using assms by (simp add: or_empty_def)
  have keep: "lookup schema ''items'' = lookup sch ''items''"
    if "array_schema deepEqual items = Return sch"
      "renderSchema (Suc n) deepEqual dataStructures root = Return schema" for sch schema
    using finish_schema_bnd_lookup [of "array_schema deepEqual items" root schema sch] that sc
    by simp
  have pl: "renderSchema (Suc n) deepEqual dataStructures root = array_schema deepEqual items"
    if "get root ''meta'' = Return Undefined" "get root ''attributes'' = Return Undefined"
  proof (cases "array_schema deepEqual items")
    case (Return sch)
    with finish_schema_plain [OF that, of sch] sc show ?thesis by simp
  qed (simp_all only: sc bnd.simps)
  have single: "array_schema deq items = Return [(''type'', Str ''array''), (''items'', items ! 0)]"
    if "length items = 1" for deq
    using that by (rule array_schema_single)
  have same: "array_schema deepEqual items = Return [(''type'', Str ''array''), (''items'', s)]"
    if "items \<noteq> []" "\<forall>x\<in>set items. x = s" "distinct_keys s"
    using that by (rule array_schema_same)
  have accept: "array_schema deepEqual items
        = Return [(''type'', Str ''array''), (''items'', last items)]"
    if "2 \<le> length items"
      "\<forall>i. Suc i < length items \<longrightarrow> deepEqual (items ! i) (items ! Suc i) = Return True"
    using array_schema_accept [of items deepEqual] that by blast
  have reject: "array_schema deepEqual items
        = Return [(''type'', Str ''array''), (''items'', Obj [(''anyOf'', Arr items)])]"
    if "Suc i < length items" "deepEqual (items ! i) (items ! Suc i) = Return False"
      "\<forall>j<i. deepEqual (items ! j) (items ! Suc j) = Return True" for i
    using array_schema_reject [of i items deepEqual] that by blast
  show ?thesis
    using sc keep pl render_all_list_all2 [OF assms(3)] single same accept reject
    by blast
qed

theorem array_items_C6_witness:
  "get (element_of ''array'' (Arr [bare ''string'', bare ''number''])) ''element''
     = Return (Str ''array'')
   \<and> get (element_of ''array'' (Arr [bare ''string'', bare ''number''])) ''content''
     = Return (Arr [bare ''string'', bare ''number''])
   \<and> render_all (renderSchema (Suc 0) deepEqual []) [bare ''string'', bare ''number'']
     = Return [Obj [(''type'', Str ''string'')], Obj [(''type'', Str ''number'')]]
   \<and> deepEqual (Obj [(''type'', Str ''string'')]) (Obj [(''type'', Str ''number'')]) = Return False
   \<and> renderSchema (Suc (Suc 0)) deepEqual []
        (element_of ''array'' (Arr [bare ''string'', bare ''number'']))
     = Return [(''type'', Str ''array''),
               (''items'', Obj [(''anyOf'',
                  Arr [Obj [(''type'', Str ''string'')], Obj [(''type'', Str ''number'')]])])]
   \<and> render_all (renderSchema (Suc 0) deepEqual []) [bare ''string'', bare ''string'']
     = Return [Obj [(''type'', Str ''string'')], Obj [(''type'', Str ''string'')]]
   \<and> distinct_keys (Obj [(''type'', Str ''string'')])
   \<and> renderSchema (Suc (Suc 0)) deepEqual []
        (element_of ''array'' (Arr [bare ''string'', bare ''string'']))
     = Return [(''type'', Str ''array''), (''items'', Obj [(''type'', Str ''string'')])]"
proof -
  let ?str = "Obj [(''type'', Str ''string'')]" and ?num = "Obj [(''type'', Str ''number'')]"
  let ?mixed = "element_of ''array'' (Arr [bare ''string'', bare ''number''])"
  let ?uniform = "element_of ''array'' (Arr [bare ''string'', bare ''string''])"
  have a1: "get ?mixed ''element'' = Return (Str ''array'')"
    and a2: "get ?mixed ''content'' = Return (Arr [bare ''string'', bare ''number''])"
    and a3: "render_all (renderSchema (Suc 0) deepEqual []) [bare ''string'', bare ''number'']
             = Return [?str, ?num]"
    and a4: "get ?mixed ''meta'' = Return Undefined \<and> get ?mixed ''attributes'' = Return Undefined"
    by (simp_all add: element_defs finish_schema_def opt_get_def)
  have b1: "get ?uniform ''element'' = Return (Str ''array'')"
    and b2: "get ?uniform ''content'' = Return (Arr [bare ''string'', bare ''string''])"
    and b3: "render_all (renderSchema (Suc 0) deepEqual []) [bare ''string'', bare ''string'']
             = Return [?str, ?str]"
    and b4: "get ?uniform ''meta'' = Return Undefined
             \<and> get ?uniform ''attributes'' = Return Undefined"
    by (simp_all add: element_defs finish_schema_def opt_get_def)
  have differ: "deepEqual ?str ?num = Return False"
    by simp
  have plain: "distinct_keys ?str"
    by simp
  note mixed = array_items_C6 [OF a1 a2 a3, of ?str]
  note uniform = array_items_C6 [OF b1 b2 b3, of ?str]
  have first: "Suc 0 < length [?str, ?num] \<and> deepEqual ([?str, ?num] ! 0) ([?str, ?num] ! Suc 0) = Return False
      \<and> (\<forall>j<0. deepEqual ([?str, ?num] ! j) ([?str, ?num] ! Suc j) = Return True)"
    using differ by simp
  have same: "[?str, ?str] \<noteq> [] \<and> (\<forall>x\<in>set [?str, ?str]. x = ?str) \<and> distinct_keys ?str"
    by simp
  from mixed a4 first
  have m1: "renderSchema (Suc (Suc 0)) deepEqual [] ?mixed = array_schema deepEqual [?str, ?num]"
    and m2: "array_schema deepEqual [?str, ?num]
             = Return [(''type'', Str ''array''), (''items'', Obj [(''anyOf'', Arr [?str, ?num])])]"
    by blast+
  from uniform b4 same
  have u1: "renderSchema (Suc (Suc 0)) deepEqual [] ?uniform = array_schema deepEqual [?str, ?str]"
    and u2: "array_schema deepEqual [?str, ?str]
             = Return [(''type'', Str ''array''), (''items'', ?str)]"
    by blast+
  show ?thesis
    using a1 a2 a3 differ b3 plain m1 [unfolded m2] u1 [unfolded u2] by (simp only:)
qed

text \<open>
  The claim as stated (with at least two children and at least one differing schema,
  \<^verbatim>\<open>items\<close> is \<^verbatim>\<open>{anyOf: [...]}\<close>) fails: \<^verbatim>\<open>deepEqual\<close> compares primitive values with
  \<^verbatim>\<open>==\<close>. Two \<^verbatim>\<open>number\<close> children with the defaults \<^verbatim>\<open>1\<close> and \<^verbatim>\<open>"1"\<close> render to
  different schemas, \<^verbatim>\<open>deepEqual\<close> accepts them, and \<^verbatim>\<open>items\<close> is the schema of the
  second child alone.
\<close>

theorem loose_comparison_C6_counterexample:
  "render_all (renderSchema (Suc 0) deepEqual [])
     [Obj [(''element'', Str ''number''), (''attributes'', Obj [(''default'', Num 1)])],
      Obj [(''element'', Str ''number''), (''attributes'', Obj [(''default'', Str ''1'')])]]
   = Return [Obj [(''type'', Str ''number''), (''default'', Num 1)],
             Obj [(''type'', Str ''number''), (''default'', Str ''1'')]]
   \<and> Obj [(''type'', Str ''number''), (''default'', Num 1)]
       \<noteq> Obj [(''type'', Str ''number''), (''default'', Str ''1'')]
   \<and> renderSchema (Suc (Suc 0)) deepEqual []
       (element_of ''array''
          (Arr [Obj [(''element'', Str ''number''), (''attributes'', Obj [(''default'', Num 1)])],
                Obj [(''element'', Str ''number''), (''attributes'', Obj [(''default'', Str ''1'')])]]))
     = Return [(''type'', Str ''array''),
               (''items'', Obj [(''type'', Str ''number''), (''default'', Str ''1'')])]"
  by (simp add: element_defs finish_schema_def opt_get_def array_schema_def or_empty_def
      string_number_def is_digit_def decimal_def digit_value_def)

subsection \<open>Option sets\<close>






section \<open>The example renderer\<close>




text \<open>
  Claim C10. On an \<^verbatim>\<open>enum\<close> element whose content is absent (\<^verbatim>\<open>undefined\<close> or
  \<^verbatim>\<open>null\<close>) or the empty array, \<^verbatim>\<open>renderExample\<close> throws a TypeError: it reads
  \<^verbatim>\<open>root.content[0]\<close> and recurses into it unconditionally. \<^verbatim>\<open>renderSchema\<close> tolerates
  both: its \<^verbatim>\<open>enum\<close> case yields \<^verbatim>\<open>{enum: []}\<close>, which is the returned schema when the
  element has no \<^verbatim>\<open>meta\<close> and no \<^verbatim>\<open>attributes\<close> for the code after the \<^verbatim>\<open>switch\<close> to
  add.
\<close>

theorem enum_without_choices_C10:
  assumes "get root ''element'' = Return (Str ''enum'')"
    and "get root ''content'' = Return c"
    and "nullish c \<or> c = Arr []"
  shows "renderExample (Suc (Suc n)) dataStructures root = Throw TypeError
       \<and> renderSchema (Suc n) deq dataStructures root = finish_schema root [(''enum'', Arr [])]
       \<and> (get root ''meta'' = Return Undefined \<and> get root ''attributes'' = Return Undefined
            \<longrightarrow> renderSchema (Suc n) deq dataStructures root = Return [(''enum'', Arr [])])"
proof -
  have ex: "renderExample (Suc (Suc n)) dataStructures root = Throw TypeError"
    using assms by (cases c) (auto simp: nth_js_def)
  have sc: "renderSchema (Suc n) deq dataStructures root = finish_schema root [(''enum'', Arr [])]"
    using assms by (cases c) (auto simp: or_empty_def)
  have pl: "renderSchema (Suc n) deq dataStructures root = Return [(''enum'', Arr [])]"
    if "get root ''meta'' = Return Undefined" "get root ''attributes'' = Return Undefined"
    using finish_schema_plain [OF that] sc by (simp only:)
  show ?thesis using ex sc pl by blast
qed

theorem enum_without_choices_C10_witness:
  "get (bare ''enum'') ''element'' = Return (Str ''enum'')
   \<and> get (bare ''enum'') ''content'' = Return Undefined
   \<and> nullish Undefined
   \<and> renderExample (Suc (Suc 0)) [] (bare ''enum'') = Throw TypeError
   \<and> renderSchema (Suc 0) deepEqual [] (bare ''enum'') = Return [(''enum'', Arr [])]
   \<and> get (element_of ''enum'' (Arr [])) ''element'' = Return (Str ''enum'')
   \<and> get (element_of ''enum'' (Arr [])) ''content'' = Return (Arr [])
   \<and> renderExample (Suc (Suc 0)) [] (element_of ''enum'' (Arr [])) = Throw TypeError
   \<and> renderSchema (Suc 0) deepEqual [] (element_of ''enum'' (Arr [])) = Return [(''enum'', Arr [])]"
proof -
  have a1: "get (bare ''enum'') ''element'' = Return (Str ''enum'')"
    and a2: "get (bare ''enum'') ''content'' = Return Undefined"
    and a3: "nullish Undefined \<or> Undefined = Arr []"
    and a4: "get (bare ''enum'') ''meta'' = Return Undefined
             \<and> get (bare ''enum'') ''attributes'' = Return Undefined"
    by (simp_all add: element_defs)
  have b1: "get (element_of ''enum'' (Arr [])) ''element'' = Return (Str ''enum'')"
    and b2: "get (element_of ''enum'' (Arr [])) ''content'' = Return (Arr [])"
    and b3: "nullish (Arr []) \<or> Arr [] = Arr []"
    and b4: "get (element_of ''enum'' (Arr [])) ''meta'' = Return Undefined
             \<and> get (element_of ''enum'' (Arr [])) ''attributes'' = Return Undefined"
    by (simp_all add: element_defs)
  note absent = enum_without_choices_C10 [OF a1 a2 a3, of 0 "[]" "deepEqual"]
  note empty = enum_without_choices_C10 [OF b1 b2 b3, of 0 "[]" "deepEqual"]
  from absent a4 have "renderExample (Suc (Suc 0)) [] (bare ''enum'') = Throw TypeError"
    and "renderSchema (Suc 0) deepEqual [] (bare ''enum'') = Return [(''enum'', Arr [])]"
    by blast+
  moreover from empty b4
  have "renderExample (Suc (Suc 0)) [] (element_of ''enum'' (Arr [])) = Throw TypeError"
    and "renderSchema (Suc 0) deepEqual [] (element_of ''enum'' (Arr [])) = Return [(''enum'', Arr [])]"
    by blast+
  ultimately show ?thesis using a1 a2 b1 b2 by simp
qed

section \<open>Mutation and sharing\<close>

lemma hbnd_cases:
  "hbnd m f h = (case fst (m h) of Return x \<Rightarrow> f x (snd (m h)) | r \<Rightarrow> hstop r (snd (m h)))"
  by (auto simp: hbnd_def split: prod.splits outcome.splits)

lemma snd_hstop [simp]: "snd (hstop r h) = h"
  by (simp add: hstop_def)

lemma snd_hread [simp]: "snd (hread r h) = h" and fst_hread [simp]: "fst (hread r h) = r h"
  by (simp_all add: hread_def)

lemma snd_hreturn [simp]: "snd (hreturn x h) = h" and snd_hthrow [simp]: "snd (hthrow e h) = h"
  by (simp_all add: hreturn_def hthrow_def)

lemma inv_hbnd:
  assumes "store_inv h0 cv (snd (m h))"
    and "\<And>x. fst (m h) = Return x \<Longrightarrow> store_inv h0 cv (snd (f x (snd (m h))))"
  shows "store_inv h0 cv (snd (hbnd m f h))"
  using assms by (auto simp: hbnd_cases split: outcome.splits)

lemma inv_write_other:
  assumes "store_inv h0 cv h" and "length h0 \<le> b" and "cv \<noteq> HRef b"
  shows "store_inv h0 cv (h[b := c])"
  using assms by (auto simp: store_inv_def owned_def; blast)

lemma h_lookup_cases: "h_lookup kvs f = HUndefined \<or> (f, h_lookup kvs f) \<in> set kvs"
  by (auto simp: h_lookup_def split: option.splits dest: map_of_SomeD)

lemma owned_field:
  assumes "store_inv h0 cv h" and "h_get h cv f = Return (HRef b)"
  shows "length h0 \<le> b \<and> cv \<noteq> HRef b"
proof (cases cv)
  case (HRef a)
  with assms(2) obtain kvs where cell: "h_cell h a = Some (CObj kvs)" and b: "h_lookup kvs f = HRef b"
    by (auto split: option.splits cell.splits)
  from cell have a: "a < length h" "h ! a = CObj kvs"
    by (auto simp: h_cell_def split: if_splits)
  from b h_lookup_cases [of kvs f] have "(f, HRef b) \<in> set kvs" by auto
  with assms(1) HRef a show ?thesis
    by (fastforce simp: store_inv_def owned_def)
qed (use assms(2) in auto)

lemma inv_set_field_of_field:
  assumes "store_inv h0 cv h" and "h_get h cv f = Return cm"
  shows "store_inv h0 cv (snd (h_set_field cm k v h))"
proof (cases cm)
  case (HRef b)
  with owned_field [OF assms(1)] assms(2) have "length h0 \<le> b" "cv \<noteq> HRef b" by auto
  with assms(1) HRef show ?thesis
    by (auto simp: h_write_def intro: inv_write_other split: option.splits cell.splits)
qed (use assms(1) in auto)

lemma inv_push_of_field:
  assumes "store_inv h0 cv h" and "h_get h cv f = Return cc"
  shows "store_inv h0 cv (snd (h_push cc item h))"
proof (cases cc)
  case (HRef b)
  with owned_field [OF assms(1)] assms(2) have "length h0 \<le> b" "cv \<noteq> HRef b" by auto
  with assms(1) HRef show ?thesis
    by (auto simp: h_write_def intro: inv_write_other split: option.splits cell.splits)
qed (use assms(1) in auto)

lemma inv_fresh_field:
  assumes "store_inv h0 cv h"
  shows "store_inv h0 cv (snd (hbnd (h_alloc c) (\<lambda>fresh. h_set_field cv f fresh) h))"
proof (cases cv)
  case (HRef a)
  from assms HRef have a: "length h0 \<le> a" "a < length h" by (auto simp: store_inv_def owned_def)
  show ?thesis
  proof (cases "h ! a")
    case (CArr vs)
    with assms HRef a show ?thesis
      by (auto simp: hbnd_def h_alloc_def h_cell_def nth_append store_inv_def owned_def hstop_def)
  next
    case (CObj kvs)
    have put: "(k, v) \<in> set (put kvs f w) \<Longrightarrow> (k, v) \<in> set kvs \<or> v = w" for k v w
      by (induction kvs) (auto split: if_splits)
    from assms HRef a CObj show ?thesis
      by (auto simp: hbnd_def h_alloc_def h_cell_def nth_append store_inv_def owned_def h_write_def
          dest!: put)
  qed
qed (use assms in \<open>auto simp: hbnd_def h_alloc_def hreturn_def hthrow_def store_inv_def owned_def\<close>)


lemma keeps_inv_plain [intro!]:
  "keeps_inv h0 cv (hreturn x)" "keeps_inv h0 cv (hthrow e)" "keeps_inv h0 cv (hread r)"
  by (simp_all add: keeps_inv_def)

lemma keeps_inv_hbnd [intro!]:
  "keeps_inv h0 cv m \<Longrightarrow> (\<And>x. keeps_inv h0 cv (f x)) \<Longrightarrow> keeps_inv h0 cv (hbnd m f)"
  by (auto simp: keeps_inv_def hbnd_cases split: outcome.splits)

lemma keeps_inv_field:
  assumes "\<And>x h. store_inv h0 cv h \<Longrightarrow> h_get h cv f = Return x \<Longrightarrow> store_inv h0 cv (snd (k x h))"
  shows "keeps_inv h0 cv (hbnd (hread (\<lambda>h. h_get h cv f)) k)"
  using assms by (auto simp: keeps_inv_def hbnd_cases split: outcome.splits)

lemma keeps_inv_if [intro!]:
  "(c \<Longrightarrow> keeps_inv h0 cv m1) \<Longrightarrow> (\<not> c \<Longrightarrow> keeps_inv h0 cv m2)
   \<Longrightarrow> keeps_inv h0 cv (if c then m1 else m2)"
  by simp

lemma keeps_inv_fresh_field [intro!]:
  "keeps_inv h0 cv (hbnd (h_alloc c) (\<lambda>fresh. h_set_field cv f fresh))"
  by (simp add: keeps_inv_def inv_fresh_field)

lemma keeps_inv_copy_entries [intro!]: "keeps_inv h0 cv (h_copy_entries f kvs cv)"
proof (induction kvs)
  case Nil
  show ?case by auto
next
  case (Cons kv kvs)
  obtain key val where kv: "kv = (key, val)" by (cases kv)
  show ?case
    unfolding kv h_copy_entries.simps
  proof (rule keeps_inv_field)
    fix cm h
    assume "store_inv h0 cv h" "h_get h cv f = Return cm"
    then have "store_inv h0 cv (snd (h_set_field cm key val h))"
      by (rule inv_set_field_of_field)
    with Cons show "store_inv h0 cv (snd (hbnd (h_set_field cm key val) (\<lambda>u. h_copy_entries f kvs cv) h))"
      by (auto simp: keeps_inv_def hbnd_cases split: outcome.splits)
  qed
qed

lemma keeps_inv_inherit_field [intro!]: "keeps_inv h0 cv (h_inherit_field f cv element)"
  unfolding h_inherit_field_def by auto

lemma keeps_inv_push_all [intro!]: "keeps_inv h0 cv (h_push_all cv items)"
proof (induction items)
  case Nil
  show ?case by auto
next
  case (Cons item items)
  show ?case
    unfolding h_push_all.simps
  proof (rule keeps_inv_field)
    fix cc h
    assume "store_inv h0 cv h" "h_get h cv ''content'' = Return cc"
    then have "store_inv h0 cv (snd (h_push cc item h))"
      by (rule inv_push_of_field)
    with Cons show "store_inv h0 cv (snd (hbnd (h_push cc item) (\<lambda>u. h_push_all cv items) h))"
      by (auto simp: keeps_inv_def hbnd_cases split: outcome.splits)
  qed
qed

lemma step_heap:
  "snd (h_uniqueMembers_step c i known h) = h
   \<or> (\<exists>vs. snd (h_uniqueMembers_step c i known h) = h[c := CArr vs])"
  by (auto simp: h_uniqueMembers_step_def hbnd_def hread_def hstop_def hreturn_def h_write_def
      split: option.splits cell.splits outcome.splits prod.splits if_splits)

lemma inv_uniqueMembers_loop:
  "length h0 \<le> c \<Longrightarrow> cv \<noteq> HRef c \<Longrightarrow> store_inv h0 cv h
   \<Longrightarrow> store_inv h0 cv (snd (h_uniqueMembers_loop c i known h))"
proof (induction c i known h rule: h_uniqueMembers_loop.induct)
  case (1 c i known h)
  show ?case
  proof (cases "i \<ge> 0")
    case False
    with 1(4) show ?thesis by simp
  next
    case True
    obtain r h' where step: "h_uniqueMembers_step c i known h = (r, h')"
      by (cases "h_uniqueMembers_step c i known h")
    have h': "store_inv h0 cv h'"
      using step_heap [of c i known h] step 1(2,3,4)
      by (auto intro: inv_write_other)
    show ?thesis
    proof (cases r)
      case (Return x)
      obtain i' known' where x: "x = (i', known')" by (cases x)
      from 1(1) [OF True step [symmetric] Return x [symmetric] 1(2) 1(3) h'] True step Return x
      show ?thesis by simp
    qed (use True step h' in simp_all)
  qed
qed

lemma inv_uniqueMembers_of_field:
  assumes "store_inv h0 cv h" and "h_get h cv f = Return cc"
  shows "store_inv h0 cv (snd (h_uniqueMembers cc h))"
proof (cases cc)
  case (HRef c)
  with owned_field [OF assms(1)] assms(2) have "length h0 \<le> c" "cv \<noteq> HRef c" by auto
  with assms(1) HRef show ?thesis
    by (auto simp: h_uniqueMembers_def simp del: h_uniqueMembers_loop.simps
        intro: inv_uniqueMembers_loop split: option.splits cell.splits)
qed (use assms(1) in \<open>auto simp: h_uniqueMembers_def\<close>)

lemma keeps_inv_unique_if_members [intro!]: "keeps_inv h0 cv (h_unique_if_members cv)"
  unfolding h_unique_if_members_def
  by (rule keeps_inv_field)
    (auto simp: hbnd_cases intro: inv_uniqueMembers_of_field split: outcome.splits)

lemma keeps_inv_inherit_content [intro!]: "keeps_inv h0 cv (h_inherit_content cv element)"
  unfolding h_inherit_content_def by auto

lemma fst_hstop [simp]: "fst (hstop r h) \<noteq> Return v"
  by (cases r) (simp_all add: hstop_def)

lemma take_chain:
  "length h \<le> length h1 \<Longrightarrow> take (length h) h1 = h \<Longrightarrow> take (length h1) h2 = h1
   \<Longrightarrow> take (length h) h2 = h"
  by (metis min.absorb1 take_take)

lemma alloc_fresh:
  "case alloc_jv x h of (v, h') \<Rightarrow>
     length h \<le> length h' \<and> take (length h) h' = h
     \<and> (\<forall>a. v = HRef a \<longrightarrow> length h \<le> a \<and> a < length h'
          \<and> (\<forall>kvs k b. h' ! a = CObj kvs \<longrightarrow> (k, HRef b) \<in> set kvs \<longrightarrow> length h \<le> b \<and> b < a))"
  "case alloc_list xs h of (vs, h') \<Rightarrow> length h \<le> length h' \<and> take (length h) h' = h"
  "case alloc_props kvs h of (ps, h') \<Rightarrow>
     length h \<le> length h' \<and> take (length h) h' = h
     \<and> (\<forall>k b. (k, HRef b) \<in> set ps \<longrightarrow> length h \<le> b \<and> b < length h')"
proof (induction x h and xs h and kvs h rule: alloc_jv_alloc_list_alloc_props.induct)
  case (6 xs h)
  then show ?case by (auto split: prod.splits)
next
  case (7 kvs h)
  then show ?case by (auto split: prod.splits simp: nth_append)
next
  case (9 x xs h)
  then show ?case by (auto split: prod.splits intro: take_chain)
next
  case (11 k x kvs h)
  then show ?case by (fastforce split: prod.splits intro: take_chain)
qed simp_all

lemma deep_copy_inv:
  "length h \<le> length (snd (h_deep_copy x h)) \<and> take (length h) (snd (h_deep_copy x h)) = h
   \<and> (\<forall>cv. fst (h_deep_copy x h) = Return cv \<longrightarrow> store_inv h cv (snd (h_deep_copy x h)))"
proof (cases "snapshot h [] x")
  case (Return jtext)
  show ?thesis
  proof (cases "jtext = Undefined")
    case True
    with Return show ?thesis
      by (simp add: h_deep_copy_def hbnd_def hread_def hthrow_def)
  next
    case False
    obtain v h' where al: "alloc_jv (json_copy jtext) h = (v, h')"
      by (cases "alloc_jv (json_copy jtext) h")
    from alloc_fresh(1) [where x = "json_copy jtext" and h = h] al
    have "length h \<le> length h'" "take (length h) h' = h" "owned (length h) v h'"
      by (auto simp: owned_def)
    with Return False al show ?thesis
      by (simp add: h_deep_copy_def hbnd_def hread_def store_inv_def)
  qed
qed (simp_all add: h_deep_copy_def hbnd_def hread_def)

lemma merge_inv:
  assumes "store_inv h0 cv h"
  shows "store_inv h0 cv (snd (h_merge cv element h))
         \<and> (\<forall>v. fst (h_merge cv element h) = Return v \<longrightarrow> v = cv)"
proof -
  have "keeps_inv h0 cv (h_merge cv element)"
    unfolding h_merge_def by auto
  with assms have "store_inv h0 cv (snd (h_merge cv element h))"
    by (simp add: keeps_inv_def)
  moreover have "v = cv" if "fst (h_merge cv element h) = Return v" for v
    using that by (auto simp: h_merge_def hbnd_cases hreturn_def split: outcome.splits)
  ultimately show ?thesis by blast
qed

lemma inherit_inv:
  "length h \<le> length (snd (h_inherit base element h))
   \<and> take (length h) (snd (h_inherit base element h)) = h
   \<and> (\<forall>v. fst (h_inherit base element h) = Return v
        \<longrightarrow> owned (length h) v (snd (h_inherit base element h)))"
proof (cases "fst (h_deep_copy base h)")
  case (Return cv)
  let ?h1 = "snd (h_deep_copy base h)"
  from deep_copy_inv [of h base] Return have ok1: "store_inv h cv ?h1" by simp
  have eq: "h_inherit base element h = h_merge cv element ?h1"
    using Return by (simp add: h_inherit_def hbnd_cases [of "h_deep_copy base"])
  from merge_inv [OF ok1, of element] show ?thesis
    unfolding eq by (auto simp: store_inv_def)
qed (use deep_copy_inv [of h base] in \<open>simp_all add: h_inherit_def hbnd_cases [of "h_deep_copy base"]\<close>)

lemma grows_plain [intro!]:
  "grows (hreturn x)" "grows (hthrow e)" "grows (hread r)" "grows (\<lambda>h. (r', h))"
  by (simp_all add: grows_def)

lemma grows_hbnd [intro!]:
  assumes "grows m" and "\<And>x. grows (f x)"
  shows "grows (hbnd m f)"
  unfolding grows_def
proof (intro allI)
  fix h
  let ?h1 = "snd (m h)"
  from assms(1) have 1: "length h \<le> length ?h1" "take (length h) ?h1 = h"
    by (auto simp: grows_def)
  show "length h \<le> length (snd (hbnd m f h)) \<and> take (length h) (snd (hbnd m f h)) = h"
  proof (cases "fst (m h)")
    case (Return x)
    from assms(2) [of x] have 2: "length ?h1 \<le> length (snd (f x ?h1))"
      "take (length ?h1) (snd (f x ?h1)) = ?h1"
      by (auto simp: grows_def)
    from 1 2 take_chain [of h ?h1 "snd (f x ?h1)"] Return show ?thesis
      by (simp add: hbnd_cases)
  qed (use 1 in \<open>simp_all add: hbnd_cases\<close>)
qed

lemma grows_if [intro!]:
  "(c \<Longrightarrow> grows m1) \<Longrightarrow> (\<not> c \<Longrightarrow> grows m2) \<Longrightarrow> grows (if c then m1 else m2)"
  by simp

lemma grows_case_prod [intro!]: "(\<And>a b. grows (f a b)) \<Longrightarrow> grows (case p of (a, b) \<Rightarrow> f a b)"
  by (cases p) simp

lemma grows_inherit [intro!]: "grows (h_inherit base element)"
  using inherit_inv by (simp add: grows_def)

subsection \<open>The renderers: what a write can reach\<close>

text \<open>A write changes one cell: an object by \<^verbatim>\<open>x[k] = v\<close>, an array by \<^verbatim>\<open>push\<close> and
  \<^verbatim>\<open>splice\<close>.\<close>

lemma set_field_effect:
  "snd (h_set_field x k v h) = h
   \<or> (\<exists>a kvs. x = HRef a \<and> a < length h \<and> h ! a = CObj kvs
         \<and> snd (h_set_field x k v h) = h[a := CObj (put kvs k v)])"
  by (cases x)
    (auto simp: h_cell_def h_write_def hreturn_def hthrow_def split: option.splits cell.splits if_splits)

lemma push_effect:
  "snd (h_push x v h) = h
   \<or> (\<exists>a ys. x = HRef a \<and> a < length h \<and> h ! a = CArr ys
         \<and> snd (h_push x v h) = h[a := CArr (ys @ [v])])"
  by (cases x)
    (auto simp: h_cell_def h_write_def hreturn_def hthrow_def split: option.splits cell.splits if_splits)

lemma splice_effect:
  "snd (h_splice x i xs h) = h
   \<or> (\<exists>a ys zs. x = HRef a \<and> a < length h \<and> h ! a = CArr ys
         \<and> snd (h_splice x i xs h) = h[a := CArr zs])"
  by (cases x)
    (auto simp: h_splice_def h_cell_def h_write_def split: option.splits cell.splits if_splits)

lemma writes_from_grows: "grows m \<Longrightarrow> writes_from b m"
  unfolding grows_def writes_from_def
  by (metis min.absorb1 take_take)

lemma grows_writes_from: "(\<And>b. writes_from b m) \<Longrightarrow> grows m"
  unfolding grows_def writes_from_def
  by (metis order_refl take_all)

lemma writes_from_plain:
  "writes_from b (hreturn x)" "writes_from b (hthrow e)" "writes_from b (hread r)"
  "writes_from b (\<lambda>h. (r', h))" "writes_from b (h_alloc c)"
  by (simp_all add: writes_from_def h_alloc_def)

lemma writes_from_hbnd:
  assumes "writes_from b m" and "\<And>x. writes_from b (f x)"
  shows "writes_from b (hbnd m f)"
  unfolding writes_from_def
proof (intro allI impI)
  fix h :: heap assume b: "b \<le> length h"
  let ?h1 = "snd (m h)"
  from assms(1) b have 1: "length h \<le> length ?h1" "take b ?h1 = take b h"
    by (auto simp: writes_from_def)
  show "length h \<le> length (snd (hbnd m f h)) \<and> take b (snd (hbnd m f h)) = take b h"
  proof (cases "fst (m h)")
    case (Return x)
    from assms(2) [of x] b 1 have "length ?h1 \<le> length (snd (f x ?h1))"
      "take b (snd (f x ?h1)) = take b ?h1"
      by (auto simp: writes_from_def)
    with 1 Return show ?thesis by (simp add: hbnd_cases)
  qed (use 1 in \<open>simp_all add: hbnd_cases\<close>)
qed

lemma writes_from_if:
  "(c \<Longrightarrow> writes_from b m1) \<Longrightarrow> (\<not> c \<Longrightarrow> writes_from b m2) \<Longrightarrow> writes_from b (if c then m1 else m2)"
  by simp

lemma writes_from_new:
  assumes "\<And>x. newer b x \<Longrightarrow> writes_from b (f x)"
  shows "writes_from b (hbnd (h_alloc c) f)"
  unfolding writes_from_def
proof (intro allI impI)
  fix h :: heap assume b: "b \<le> length h"
  have "newer b (HRef (length h))" using b by (simp add: newer_def)
  from assms [OF this] b show "length h \<le> length (snd (hbnd (h_alloc c) f h))
      \<and> take b (snd (hbnd (h_alloc c) f h)) = take b h"
    by (auto simp: writes_from_def hbnd_def h_alloc_def dest!: spec [of _ "h @ [c]"])
qed

lemma writes_from_slice0:
  assumes "\<And>x. newer b x \<Longrightarrow> writes_from b (f x)"
  shows "writes_from b (hbnd (h_slice0_new c) f)"
proof -
  have "hbnd (h_slice0_new c) f = hbnd (hread (\<lambda>h. h_slice0 h c)) (\<lambda>vs. hbnd (h_alloc (CArr vs)) f)"
    by (auto simp: h_slice0_new_def hbnd_def hread_def hstop_def fun_eq_iff
        split: outcome.splits prod.splits)
  then show ?thesis
    by (simp only:) (intro writes_from_new writes_from_hbnd writes_from_plain assms)
qed

lemma writes_from_update: "b \<le> a \<Longrightarrow> take b (h[a := c]) = take b h"
  by simp

lemma writes_from_set_field:
  assumes "newer b x"
  shows "writes_from b (h_set_field x k v)"
  unfolding writes_from_def
proof (intro allI impI)
  fix h :: heap assume "b \<le> length h"
  from set_field_effect [of x k v h] assms
  show "length h \<le> length (snd (h_set_field x k v h))
      \<and> take b (snd (h_set_field x k v h)) = take b h"
    by (auto simp: newer_def)
qed

lemma writes_from_push:
  assumes "newer b x"
  shows "writes_from b (h_push x v)"
  unfolding writes_from_def
proof (intro allI impI)
  fix h :: heap assume "b \<le> length h"
  from push_effect [of x v h] assms
  show "length h \<le> length (snd (h_push x v h)) \<and> take b (snd (h_push x v h)) = take b h"
    by (auto simp: newer_def)
qed

lemma writes_from_splice:
  assumes "newer b x"
  shows "writes_from b (h_splice x i xs)"
  unfolding writes_from_def
proof (intro allI impI)
  fix h :: heap assume "b \<le> length h"
  from splice_effect [of x i xs h] assms
  show "length h \<le> length (snd (h_splice x i xs h))
      \<and> take b (snd (h_splice x i xs h)) = take b h"
    by (auto simp: newer_def)
qed

lemma writes_from_ref_member:
  "newer b properties \<Longrightarrow> writes_from b (h_ref_member ds member properties i)"
  unfolding h_ref_member_def
  by (intro writes_from_hbnd writes_from_plain writes_from_splice)

lemma writes_from_example_all:
  "(\<And>x. writes_from b (render x)) \<Longrightarrow> newer b out \<Longrightarrow> writes_from b (h_example_all render out items)"
  by (induction items) (simp_all add: writes_from_plain writes_from_hbnd writes_from_push)

lemma writes_from_example_member:
  "(\<And>x. writes_from b (render x)) \<Longrightarrow> newer b obj
   \<Longrightarrow> writes_from b (h_example_member render obj member e)"
  unfolding h_example_member_def
  by (intro writes_from_hbnd writes_from_plain writes_from_if writes_from_set_field)

lemma writes_from_example_loop:
  "(\<And>x. writes_from b (render x)) \<Longrightarrow> newer b obj \<Longrightarrow> newer b properties
   \<Longrightarrow> writes_from b (h_example_loop n render ds obj properties i)"
proof (induction n arbitrary: i)
  case 0
  show ?case
    unfolding h_example_loop.simps
    by (intro writes_from_hbnd writes_from_plain writes_from_if)
next
  case (Suc n)
  show ?case
    unfolding h_example_loop.simps
    by (intro writes_from_hbnd writes_from_plain writes_from_if writes_from_ref_member
        writes_from_example_member Suc)
qed

lemma grows_inherit_entry: "grows (h_inherit_entry ref element)"
proof (cases ref)
  case (Own base)
  then show ?thesis by auto
next
  case Inherited_function
  then show ?thesis by auto
next
  case Object_prototype
  show ?thesis
    unfolding grows_def
  proof
    fix h
    let ?cv = "HRef (length h)" and ?h1 = "h @ [CObj []]"
    have "store_inv h ?cv ?h1"
      by (simp add: store_inv_def owned_def)
    from merge_inv [OF this, of element]
    show "length h \<le> length (snd (h_inherit_entry ref element h))
        \<and> take (length h) (snd (h_inherit_entry ref element h)) = h"
      by (simp add: Object_prototype hbnd_def h_alloc_def store_inv_def)
  qed
qed

text \<open>\<^verbatim>\<open>renderExample\<close> writes to the cells that it has created itself (\<^verbatim>\<open>obj\<close>, the
  copy \<^verbatim>\<open>properties\<close>, the array of \<^verbatim>\<open>map\<close>), held in local variables.\<close>

lemma grows_renderExample: "grows (h_renderExample n ds root)"
proof (induction n arbitrary: root)
  case 0
  show ?case by (simp add: grows_def)
next
  case (Suc n)
  have rec: "writes_from b (h_renderExample n ds x)" for b x
    using Suc by (rule writes_from_grows)
  have ent: "writes_from b (h_inherit_entry ref x)" for b ref x
    using grows_inherit_entry by (rule writes_from_grows)
  show ?case
  proof (rule grows_writes_from)
    fix b
    show "writes_from b (h_renderExample (Suc n) ds root)"
      unfolding h_renderExample.simps
      by (intro writes_from_hbnd writes_from_plain writes_from_if writes_from_new
          writes_from_slice0 writes_from_example_all writes_from_example_loop rec ent)
  qed
qed

subsection \<open>The schema under construction\<close>

text \<open>
  \<^verbatim>\<open>renderSchema\<close> also writes to cells that it reads from \<^verbatim>\<open>schema\<close>:
  \<^verbatim>\<open>schema.enum\<close>, \<^verbatim>\<open>schema.allOf\<close>, \<^verbatim>\<open>schema.properties\<close> and
  \<^verbatim>\<open>schema.properties[key]\<close>. The invariant \<open>schema_inv\<close> says where these cells are; it
  is kept by every write of the code.
\<close>

lemma put_set: "(k', v') \<in> set (put kvs k v) \<Longrightarrow> (k', v') \<in> set kvs \<or> v' = v"
  by (induction kvs) (auto split: if_splits)

lemma h_lookup_put: "h_lookup (put kvs k v) k' = (if k' = k then v else h_lookup kvs k')"
  by (induction kvs) (auto simp: h_lookup_def)

lemma schema_inv_array_update:
  assumes "schema_inv s m h" and "h ! a = CArr ys"
  shows "schema_inv s m (h[a := CArr zs])"
proof -
  from assms(1) obtain kvs where s: "s < m" "m \<le> length h" "h ! s = CObj kvs"
    and p: "\<And>p. h_lookup kvs ''properties'' = HRef p \<Longrightarrow> s < p \<and> p < m \<and> props_newer m h p"
    and n: "newer m (h_lookup kvs ''allOf'')" "newer m (h_lookup kvs ''enum'')"
    by (auto simp: schema_inv_def)
  from s assms(2) have a: "a \<noteq> s" by auto
  have "props_newer m (h[a := CArr zs]) p" if "props_newer m h p" for p
    using that assms(2)
    by (cases "a = p"; cases "a < length h") (auto simp: props_newer_def list_update_beyond)
  with s a p n show ?thesis
    by (auto simp: schema_inv_def)
qed

lemma schema_inv_newer_update:
  assumes "schema_inv s m h" and "m \<le> a"
  shows "schema_inv s m (h[a := c])"
proof -
  from assms(1) obtain kvs where s: "s < m" "m \<le> length h" "h ! s = CObj kvs"
    and p: "\<And>p. h_lookup kvs ''properties'' = HRef p \<Longrightarrow> s < p \<and> p < m \<and> props_newer m h p"
    and n: "newer m (h_lookup kvs ''allOf'')" "newer m (h_lookup kvs ''enum'')"
    by (auto simp: schema_inv_def)
  have "props_newer m (h[a := c]) p" if "props_newer m h p" "p < m" for p
    using that assms(2) by (auto simp: props_newer_def)
  with s p n assms(2) show ?thesis
    by (auto simp: schema_inv_def)
qed

lemma schema_inv_below_update:
  assumes "schema_inv s m h" and "a < s"
  shows "schema_inv s m (h[a := c])"
proof -
  from assms(1) obtain kvs where s: "s < m" "m \<le> length h" "h ! s = CObj kvs"
    and p: "\<And>p. h_lookup kvs ''properties'' = HRef p \<Longrightarrow> s < p \<and> p < m \<and> props_newer m h p"
    and n: "newer m (h_lookup kvs ''allOf'')" "newer m (h_lookup kvs ''enum'')"
    by (auto simp: schema_inv_def)
  have "props_newer m (h[a := c]) p" if "props_newer m h p" "s < p" for p
    using that assms(2) by (auto simp: props_newer_def)
  with s p n assms(2) show ?thesis
    by (auto simp: schema_inv_def)
qed

lemma schema_inv_props_update:
  assumes "schema_inv s m h" and "s < q" and "q < m" and "h ! q = CObj ps" and "newer m v"
  shows "schema_inv s m (h[q := CObj (put ps k v)])"
proof -
  from assms(1) obtain kvs where s: "s < m" "m \<le> length h" "h ! s = CObj kvs"
    and p: "\<And>p. h_lookup kvs ''properties'' = HRef p \<Longrightarrow> s < p \<and> p < m \<and> props_newer m h p"
    and n: "newer m (h_lookup kvs ''allOf'')" "newer m (h_lookup kvs ''enum'')"
    by (auto simp: schema_inv_def)
  have "props_newer m (h[q := CObj (put ps k v)]) p" if "props_newer m h p" for p
  proof (cases "p = q")
    case True
    with that assms(3,4,5) s(2) show ?thesis
      by (auto simp: props_newer_def newer_def dest!: put_set)
  next
    case False
    with that show ?thesis by (auto simp: props_newer_def)
  qed
  with s p n assms(2) show ?thesis
    by (auto simp: schema_inv_def)
qed

lemma schema_inv_self_update:
  assumes "schema_inv s m h" and "h ! s = CObj kvs"
    and "k \<noteq> ''properties''"
    and "k = ''allOf'' \<or> k = ''enum'' \<longrightarrow> newer m v"
  shows "schema_inv s m (h[s := CObj (put kvs k v)])"
proof -
  from assms(1,2) have s: "s < m" "m \<le> length h"
    and p: "\<And>p. h_lookup kvs ''properties'' = HRef p \<Longrightarrow> s < p \<and> p < m \<and> props_newer m h p"
    and n: "newer m (h_lookup kvs ''allOf'')" "newer m (h_lookup kvs ''enum'')"
    by (auto simp: schema_inv_def)
  have "props_newer m (h[s := CObj (put kvs k v)]) p" if "props_newer m h p" "s < p" for p
    using that by (auto simp: props_newer_def)
  with s p n assms(3,4) show ?thesis
    by (auto simp: schema_inv_def h_lookup_put)
qed

lemma schema_inv_ext:
  assumes "schema_inv s m h" and "length h \<le> length h'" and "take (length h) h' = h"
  shows "schema_inv s m h'"
proof -
  have nth: "h' ! a = h ! a" if "a < length h" for a
    using that assms(3) by (metis nth_take)
  from assms(1) obtain kvs where s: "s < m" "m \<le> length h" "h ! s = CObj kvs"
    and p: "\<And>p. h_lookup kvs ''properties'' = HRef p \<Longrightarrow> s < p \<and> p < m \<and> props_newer m h p"
    and n: "newer m (h_lookup kvs ''allOf'')" "newer m (h_lookup kvs ''enum'')"
    by (auto simp: schema_inv_def)
  have "props_newer m h' p" if "props_newer m h p" "p < m" for p
    using that nth [of p] s(2) by (auto simp: props_newer_def)
  with s p n assms(2) nth [of s] show ?thesis
    by (auto simp: schema_inv_def)
qed

lemma schema_inv_append: "schema_inv s m h \<Longrightarrow> schema_inv s m (h @ [c])"
  by (rule schema_inv_ext) auto

text \<open>What a read of the schema cell yields.\<close>

lemma read_new:
  assumes "schema_inv s m h" and "f = ''allOf'' \<or> f = ''enum''"
    and "h_get h (HRef s) f = Return x"
  shows "newer m x"
  using assms by (auto simp: schema_inv_def h_cell_def split: if_splits)

lemma read_props:
  assumes "schema_inv s m h" and "h_get h (HRef s) ''properties'' = Return x"
  shows "within s m x"
  using assms by (auto simp: schema_inv_def h_cell_def within_def split: if_splits)

lemma read_entry:
  assumes "schema_inv s m h"
    and "bnd (h_get h (HRef s) ''properties'') (\<lambda>ps. h_get h ps name) = Return t"
  shows "newer m t"
proof -
  from assms(1) obtain kvs where s: "s < m" "m \<le> length h" "h ! s = CObj kvs"
    and p: "\<And>p. h_lookup kvs ''properties'' = HRef p \<Longrightarrow> s < p \<and> p < m \<and> props_newer m h p"
    by (auto simp: schema_inv_def)
  from s have get: "h_get h (HRef s) ''properties'' = Return (h_lookup kvs ''properties'')"
    by (simp add: h_cell_def)
  show ?thesis
  proof (cases "h_lookup kvs ''properties''")
    case (HRef q)
    from p [OF HRef] s have q: "q < length h" "props_newer m h q" by auto
    show ?thesis
    proof (cases "h ! q")
      case (CObj ps)
      from assms(2) get HRef q CObj have t: "t = h_lookup ps name"
        by (simp add: h_cell_def)
      from h_lookup_cases [of ps name] t q(2) CObj show ?thesis
        by (auto simp: props_newer_def newer_def)
    next
      case (CArr vs)
      with assms(2) get HRef q show ?thesis by (simp add: h_cell_def newer_def)
    qed
  qed (use assms(2) get in \<open>auto simp: newer_def\<close>)
qed

lemma ks_plain:
  "keeps_schema s m (hreturn x)" "keeps_schema s m (hthrow e)" "keeps_schema s m (hread r)"
  "keeps_schema s m (\<lambda>h. (r', h))"
  by (simp_all add: keeps_schema_def)

lemma ks_if:
  "(c \<Longrightarrow> keeps_schema s m f) \<Longrightarrow> (\<not> c \<Longrightarrow> keeps_schema s m g) \<Longrightarrow> keeps_schema s m (if c then f else g)"
  by simp

text \<open>Sequencing, with what is known of the value that the first computation returns.\<close>

lemma ks_bind:
  assumes "\<And>h. schema_inv s m h \<Longrightarrow>
             length h \<le> length (snd (f h)) \<and> take s (snd (f h)) = take s h
             \<and> schema_inv s m (snd (f h)) \<and> (\<forall>x. fst (f h) = Return x \<longrightarrow> P x)"
    and "\<And>x. P x \<Longrightarrow> keeps_schema s m (g x)"
  shows "keeps_schema s m (hbnd f g)"
  unfolding keeps_schema_def
proof (intro allI impI)
  fix h assume inv: "schema_inv s m h"
  let ?h1 = "snd (f h)"
  from assms(1) [OF inv] have 1: "length h \<le> length ?h1" "take s ?h1 = take s h"
    "schema_inv s m ?h1" and P: "\<And>x. fst (f h) = Return x \<Longrightarrow> P x"
    by auto
  show "length h \<le> length (snd (hbnd f g h)) \<and> take s (snd (hbnd f g h)) = take s h
      \<and> schema_inv s m (snd (hbnd f g h))"
  proof (cases "fst (f h)")
    case (Return x)
    from assms(2) [OF P [OF Return]] 1(3)
    have "length ?h1 \<le> length (snd (g x ?h1))" "take s (snd (g x ?h1)) = take s ?h1"
      "schema_inv s m (snd (g x ?h1))"
      by (auto simp: keeps_schema_def)
    with 1 Return show ?thesis by (simp add: hbnd_cases)
  qed (use 1 in \<open>simp_all add: hbnd_cases\<close>)
qed

lemma ks_hbnd:
  assumes "keeps_schema s m f" and "\<And>x. keeps_schema s m (g x)"
  shows "keeps_schema s m (hbnd f g)"
proof (rule ks_bind [where P = "\<lambda>x. True"])
  fix h assume "schema_inv s m h"
  with assms(1) show "length h \<le> length (snd (f h)) \<and> take s (snd (f h)) = take s h
      \<and> schema_inv s m (snd (f h)) \<and> (\<forall>x. fst (f h) = Return x \<longrightarrow> True)"
    by (simp add: keeps_schema_def)
qed (rule assms(2))

lemma ks_grows:
  assumes "grows f"
  shows "keeps_schema s m f"
  unfolding keeps_schema_def
proof (intro allI impI)
  fix h assume inv: "schema_inv s m h"
  from assms have ext: "length h \<le> length (snd (f h))" "take (length h) (snd (f h)) = h"
    by (auto simp: grows_def)
  from inv have "s \<le> length h" by (simp add: schema_inv_def)
  with ext have "take s (snd (f h)) = take s h"
    by (metis min.absorb1 take_take)
  with ext schema_inv_ext [OF inv ext]
  show "length h \<le> length (snd (f h)) \<and> take s (snd (f h)) = take s h
      \<and> schema_inv s m (snd (f h))"
    by simp
qed

lemma ks_new:
  assumes "\<And>x. newer m x \<Longrightarrow> keeps_schema s m (g x)"
  shows "keeps_schema s m (hbnd (h_alloc c) g)"
proof (rule ks_bind [where P = "newer m"])
  fix h assume inv: "schema_inv s m h"
  then have "s \<le> length h" "m \<le> length h" by (auto simp: schema_inv_def)
  with schema_inv_append [OF inv, of c]
  show "length h \<le> length (snd (h_alloc c h)) \<and> take s (snd (h_alloc c h)) = take s h
      \<and> schema_inv s m (snd (h_alloc c h)) \<and> (\<forall>x. fst (h_alloc c h) = Return x \<longrightarrow> newer m x)"
    by (auto simp: h_alloc_def newer_def)
qed (rule assms)

lemma ks_slice0:
  assumes "\<And>x. newer m x \<Longrightarrow> keeps_schema s m (g x)"
  shows "keeps_schema s m (hbnd (h_slice0_new c) g)"
proof -
  have "hbnd (h_slice0_new c) g = hbnd (hread (\<lambda>h. h_slice0 h c)) (\<lambda>vs. hbnd (h_alloc (CArr vs)) g)"
    by (auto simp: h_slice0_new_def hbnd_def hread_def hstop_def fun_eq_iff
        split: outcome.splits prod.splits)
  then show ?thesis
    by (simp only:) (intro ks_new ks_hbnd ks_plain assms)
qed

lemma makes_schema_grows: "makes_schema f \<Longrightarrow> grows f"
  by (simp add: makes_schema_def grows_def)

lemma ks_made:
  assumes "makes_schema f" and "\<And>x. newer m x \<Longrightarrow> keeps_schema s m (g x)"
  shows "keeps_schema s m (hbnd f g)"
proof (rule ks_bind [where P = "newer m"])
  fix h assume inv: "schema_inv s m h"
  from ks_grows [OF makes_schema_grows [OF assms(1)], of s m] inv
  have "length h \<le> length (snd (f h))" "take s (snd (f h)) = take s h"
    "schema_inv s m (snd (f h))"
    by (auto simp: keeps_schema_def)
  moreover have "newer m x" if "fst (f h) = Return x" for x
    using assms(1) that inv by (fastforce simp: makes_schema_def newer_def schema_inv_def)
  ultimately show "length h \<le> length (snd (f h)) \<and> take s (snd (f h)) = take s h
      \<and> schema_inv s m (snd (f h)) \<and> (\<forall>x. fst (f h) = Return x \<longrightarrow> newer m x)"
    by blast
qed (rule assms(2))

lemma ks_read_new:
  assumes "f = ''allOf'' \<or> f = ''enum''"
    and "\<And>x. newer m x \<Longrightarrow> keeps_schema s m (g x)"
  shows "keeps_schema s m (hbnd (hread (\<lambda>h. h_get h (HRef s) f)) g)"
proof (rule ks_bind [where P = "newer m"])
  fix h assume inv: "schema_inv s m h"
  show "length h \<le> length (snd (hread (\<lambda>h. h_get h (HRef s) f) h))
      \<and> take s (snd (hread (\<lambda>h. h_get h (HRef s) f) h)) = take s h
      \<and> schema_inv s m (snd (hread (\<lambda>h. h_get h (HRef s) f) h))
      \<and> (\<forall>x. fst (hread (\<lambda>h. h_get h (HRef s) f) h) = Return x \<longrightarrow> newer m x)"
    using inv read_new [OF inv assms(1)] by (simp del: h_get.simps)
qed (rule assms(2))

lemma ks_read_props:
  assumes "\<And>x. within s m x \<Longrightarrow> keeps_schema s m (g x)"
  shows "keeps_schema s m (hbnd (hread (\<lambda>h. h_get h (HRef s) ''properties'')) g)"
proof (rule ks_bind [where P = "within s m"])
  fix h assume inv: "schema_inv s m h"
  show "length h \<le> length (snd (hread (\<lambda>h. h_get h (HRef s) ''properties'') h))
      \<and> take s (snd (hread (\<lambda>h. h_get h (HRef s) ''properties'') h)) = take s h
      \<and> schema_inv s m (snd (hread (\<lambda>h. h_get h (HRef s) ''properties'') h))
      \<and> (\<forall>x. fst (hread (\<lambda>h. h_get h (HRef s) ''properties'') h) = Return x \<longrightarrow> within s m x)"
    using inv read_props [OF inv] by (simp del: h_get.simps)
qed (rule assms)

lemma ks_read_entry:
  assumes "\<And>t. newer m t \<Longrightarrow> keeps_schema s m (g t)"
  shows "keeps_schema s m
           (hbnd (hread (\<lambda>h. bnd (h_get h (HRef s) ''properties'') (\<lambda>ps. h_get h ps name))) g)"
proof (rule ks_bind [where P = "newer m"])
  fix h assume inv: "schema_inv s m h"
  let ?r = "hread (\<lambda>h. bnd (h_get h (HRef s) ''properties'') (\<lambda>ps. h_get h ps name))"
  show "length h \<le> length (snd (?r h)) \<and> take s (snd (?r h)) = take s h
      \<and> schema_inv s m (snd (?r h)) \<and> (\<forall>x. fst (?r h) = Return x \<longrightarrow> newer m x)"
    using inv read_entry [OF inv] by (simp del: h_get.simps)
qed (rule assms)

lemma ks_push:
  assumes "newer m x"
  shows "keeps_schema s m (h_push x v)"
  unfolding keeps_schema_def
proof (intro allI impI)
  fix h assume inv: "schema_inv s m h"
  then have s: "s < m" by (simp add: schema_inv_def)
  from push_effect [of x v h] assms s inv
  show "length h \<le> length (snd (h_push x v h)) \<and> take s (snd (h_push x v h)) = take s h
      \<and> schema_inv s m (snd (h_push x v h))"
    by (auto simp: newer_def intro: schema_inv_array_update)
qed

lemma ks_splice:
  assumes "newer m x"
  shows "keeps_schema s m (h_splice x i xs)"
  unfolding keeps_schema_def
proof (intro allI impI)
  fix h assume inv: "schema_inv s m h"
  then have s: "s < m" by (simp add: schema_inv_def)
  from splice_effect [of x i xs h] assms s inv
  show "length h \<le> length (snd (h_splice x i xs h)) \<and> take s (snd (h_splice x i xs h)) = take s h
      \<and> schema_inv s m (snd (h_splice x i xs h))"
    by (auto simp: newer_def intro: schema_inv_array_update)
qed

lemma ks_set_newer:
  assumes "newer m x"
  shows "keeps_schema s m (h_set_field x k v)"
  unfolding keeps_schema_def
proof (intro allI impI)
  fix h assume inv: "schema_inv s m h"
  then have s: "s < m" by (simp add: schema_inv_def)
  from set_field_effect [of x k v h] assms s inv
  show "length h \<le> length (snd (h_set_field x k v h)) \<and> take s (snd (h_set_field x k v h)) = take s h
      \<and> schema_inv s m (snd (h_set_field x k v h))"
    by (auto simp: newer_def intro: schema_inv_newer_update)
qed

lemma ks_set_props:
  assumes "within s m x" and "newer m v"
  shows "keeps_schema s m (h_set_field x k v)"
  unfolding keeps_schema_def
proof (intro allI impI)
  fix h assume inv: "schema_inv s m h"
  from set_field_effect [of x k v h] assms inv
  show "length h \<le> length (snd (h_set_field x k v h)) \<and> take s (snd (h_set_field x k v h)) = take s h
      \<and> schema_inv s m (snd (h_set_field x k v h))"
    by (auto simp: within_def intro: schema_inv_props_update)
qed

lemma ks_set_self:
  assumes "k \<noteq> ''properties''" and "k = ''allOf'' \<or> k = ''enum'' \<longrightarrow> newer m v"
  shows "keeps_schema s m (h_set_field (HRef s) k v)"
  unfolding keeps_schema_def
proof (intro allI impI)
  fix h assume inv: "schema_inv s m h"
  from set_field_effect [of "HRef s" k v h] assms inv
  show "length h \<le> length (snd (h_set_field (HRef s) k v h))
      \<and> take s (snd (h_set_field (HRef s) k v h)) = take s h
      \<and> schema_inv s m (snd (h_set_field (HRef s) k v h))"
    by (auto intro: schema_inv_self_update)
qed

lemmas ks_rules = ks_read_entry ks_read_props ks_new ks_slice0 ks_hbnd ks_plain ks_if

lemma ks_member_description:
  "keeps_schema s m (h_member_description (HRef s) member name)"
  unfolding h_member_description_def
  by (intro ks_rules ks_set_newer)

lemma ks_member_type_attributes:
  "newer m required \<Longrightarrow> keeps_schema s m (h_member_type_attributes (HRef s) required member key name)"
  unfolding h_member_type_attributes_def
  by (intro ks_rules ks_set_newer ks_push)

lemma ks_plain_member:
  assumes "\<And>x. makes_schema (render x)" and "newer m required"
  shows "keeps_schema s m (h_plain_member render (HRef s) required member)"
  unfolding h_plain_member_def
  by (intro ks_rules ks_made [OF assms(1)] ks_set_props ks_member_description
      ks_member_type_attributes assms(2))

lemma ks_ref_member:
  "newer m properties \<Longrightarrow> keeps_schema s m (h_ref_member ds member properties i)"
  unfolding h_ref_member_def
  by (intro ks_rules ks_splice)

text \<open>The properties of an option: both schemas, the one being built and the one of the
  option, keep their shape.\<close>

lemma option_properties_inv:
  assumes "newer m exclusive" and "m \<le> s'"
  shows "schema_inv s m h \<Longrightarrow> schema_inv s' m' h \<Longrightarrow>
         length h \<le> length (snd (h_option_properties (HRef s) exclusive (HRef s') keys h))
         \<and> take s (snd (h_option_properties (HRef s) exclusive (HRef s') keys h)) = take s h
         \<and> schema_inv s m (snd (h_option_properties (HRef s) exclusive (HRef s') keys h))"
proof (induction keys arbitrary: h)
  case Nil
  then show ?case by simp
next
  case (Cons key keys)
  note inv = Cons.prems
  from inv have sm: "s < m" and sm': "s' < m'" by (auto simp: schema_inv_def)
  let ?read = "bnd (h_get h (HRef s') ''properties'') (\<lambda>ops. h_get h ops key)"
  show ?case
  proof (cases ?read)
    case (Return pv)
    from read_entry [OF inv(2) Return] have pv': "newer m' pv" .
    with assms(2) sm' have pv: "newer m pv" by (auto simp: newer_def)
    let ?h1 = "snd (h_push exclusive (HStr key) h)"
    have h1: "length h \<le> length ?h1" "take s ?h1 = take s h" "schema_inv s m ?h1"
      using ks_push [OF assms(1), of s "HStr key"] inv(1) by (auto simp: keeps_schema_def)
    have h1': "schema_inv s' m' ?h1"
      using push_effect [of exclusive "HStr key" h] inv(2)
      by (auto intro: schema_inv_array_update)
    show ?thesis
    proof (cases "fst (h_push exclusive (HStr key) h)")
      case pushed: (Return u)
      show ?thesis
      proof (cases "h_get ?h1 (HRef s) ''properties''")
        case ps: (Return ps)
        from read_props [OF h1(3) ps] have w: "within s m ps" .
        let ?h2 = "snd (h_set_field ps key pv ?h1)"
        have h2: "length ?h1 \<le> length ?h2" "take s ?h2 = take s ?h1" "schema_inv s m ?h2"
          using ks_set_props [OF w pv, of key] h1(3) by (auto simp: keeps_schema_def)
        have h2': "schema_inv s' m' ?h2"
        proof -
          have "a < s'" if "ps = HRef a" for a
            using that w assms(2) by (auto simp: within_def)
          with set_field_effect [of ps key pv ?h1] h1' show ?thesis
            by (auto simp del: h_set_field.simps intro: schema_inv_below_update)
        qed
        show ?thesis
        proof (cases "fst (h_set_field ps key pv ?h1)")
          case written: (Return u')
          from Cons.IH [OF h2(3) h2'] h1 h2 Return pushed ps written
          show ?thesis
            by (simp add: hbnd_cases del: h_get.simps h_set_field.simps h_push.simps)
        qed (use h1 h2 Return pushed ps in
            \<open>simp_all add: hbnd_cases del: h_get.simps h_set_field.simps h_push.simps\<close>)
      qed (use h1 Return pushed in
          \<open>simp_all add: hbnd_cases del: h_get.simps h_set_field.simps h_push.simps\<close>)
    qed (use h1 Return in
        \<open>simp_all add: hbnd_cases del: h_get.simps h_set_field.simps h_push.simps\<close>)
  qed (use inv in \<open>simp_all add: hbnd_cases del: h_get.simps\<close>)
qed

lemma ks_select_options:
  assumes "\<And>x. makes_schema (render x)" and "newer m exclusive"
  shows "keeps_schema s m (h_select_options render (HRef s) exclusive options)"
proof (induction options)
  case Nil
  show ?case by (simp add: ks_plain)
next
  case (Cons option options)
  show ?case
    unfolding keeps_schema_def
  proof (intro allI impI)
    fix h assume inv: "schema_inv s m h"
    let ?h1 = "snd (render option h)"
    have h1: "length h \<le> length ?h1" "take s ?h1 = take s h" "schema_inv s m ?h1"
      using ks_grows [OF makes_schema_grows [OF assms(1)], of s m option] inv
      by (auto simp: keeps_schema_def)
    let ?goal = "\<lambda>h'. length h \<le> length h' \<and> take s h' = take s h \<and> schema_inv s m h'"
    show "?goal (snd (h_select_options render (HRef s) exclusive (option # options) h))"
    proof (cases "fst (render option h)")
      case (Return optionSchema)
      from assms(1) [of option]
      have "\<forall>v. fst (render option h) = Return v \<longrightarrow>
              (\<exists>s m. v = HRef s \<and> length h \<le> s \<and> schema_inv s m ?h1)"
        by (simp add: makes_schema_def)
      with Return obtain s' m' where
        os: "optionSchema = HRef s'" "length h \<le> s'" "schema_inv s' m' ?h1"
        by blast
      from inv have "m \<le> length h" by (simp add: schema_inv_def)
      with os(2) have ms: "m \<le> s'" by simp
      let ?keys = "bnd (h_get ?h1 optionSchema ''properties'') (\<lambda>ops. h_for_in_keys ?h1 ops)"
      show ?thesis
      proof (cases ?keys)
        case keys: (Return keys)
        let ?h2 = "snd (h_option_properties (HRef s) exclusive (HRef s') keys ?h1)"
        from option_properties_inv [OF assms(2) ms h1(3) os(3), of keys]
        have h2: "length ?h1 \<le> length ?h2" "take s ?h2 = take s ?h1" "schema_inv s m ?h2"
          by auto
        show ?thesis
        proof (cases "fst (h_option_properties (HRef s) exclusive (HRef s') keys ?h1)")
          case fin: (Return u)
          let ?h3 = "snd (h_select_options render (HRef s) exclusive options ?h2)"
          from Cons h2(3) have "length ?h2 \<le> length ?h3" "take s ?h3 = take s ?h2"
            "schema_inv s m ?h3"
            by (auto simp: keeps_schema_def)
          with h1 h2 Return os(1) keys fin show ?thesis
            by (simp add: hbnd_cases del: h_get.simps)
        qed (use h1 h2 Return os(1) keys in \<open>simp_all add: hbnd_cases del: h_get.simps\<close>)
      qed (use h1 Return in \<open>simp_all add: hbnd_cases del: h_get.simps\<close>)
    qed (use h1 in \<open>simp_all add: hbnd_cases\<close>)
  qed
qed

lemma ks_select_member:
  assumes "\<And>x. makes_schema (render x)"
  shows "keeps_schema s m (h_select_member render (HRef s) member)"
  unfolding h_select_member_def
  by (intro ks_read_new ks_rules ks_select_options [OF assms] ks_set_self ks_push) simp_all

lemma ks_schema_loop:
  assumes "\<And>x. makes_schema (render x)" and "newer m required" and "newer m properties"
  shows "keeps_schema s m (h_schema_loop n render ds (HRef s) required properties i)"
proof (induction n arbitrary: i)
  case 0
  show ?case
    unfolding h_schema_loop.simps by (intro ks_rules)
next
  case (Suc n)
  show ?case
    unfolding h_schema_loop.simps
    by (intro ks_rules ks_ref_member ks_select_member ks_plain_member assms Suc)
qed

lemma ks_object_members:
  assumes "\<And>x. makes_schema (render x)"
  shows "keeps_schema s m (h_object_members n render ds (HRef s) root)"
  unfolding h_object_members_def
  by (intro ks_rules ks_schema_loop assms ks_set_self) simp_all

lemma ks_primitive_case: "keeps_schema s m (h_primitive_case (HRef s) root e)"
  unfolding h_primitive_case_def
  by (intro ks_rules ks_set_self) simp_all

lemma ks_enum_push: "keeps_schema s m (h_enum_push (HRef s) items)"
proof (induction items)
  case Nil
  show ?case by (simp add: ks_plain)
next
  case (Cons item items)
  show ?case
    unfolding h_enum_push.simps
    by (intro ks_read_new ks_rules ks_push Cons) simp_all
qed

lemma ks_enum_case: "keeps_schema s m (h_enum_case (HRef s) root)"
  unfolding h_enum_case_def
  by (intro ks_rules ks_set_self ks_enum_push) simp_all

lemma ks_render_all:
  assumes "\<And>x. makes_schema (render x)" and "newer m items"
  shows "keeps_schema s m (h_render_all render items children)"
proof (induction children)
  case Nil
  show ?case by (simp add: ks_plain)
next
  case (Cons item children)
  show ?case
    unfolding h_render_all.simps
    by (intro ks_made [OF assms(1)] ks_rules ks_push assms(2) Cons)
qed

lemma ks_case_option:
  "keeps_schema s m f \<Longrightarrow> (\<And>y. keeps_schema s m (g y))
   \<Longrightarrow> keeps_schema s m (case x of None \<Rightarrow> f | Some y \<Rightarrow> g y)"
  by (cases x) simp_all

lemma ks_array_items: "keeps_schema s m (h_array_items deq (HRef s) items)"
  unfolding h_array_items_def
  by (intro ks_rules ks_case_option ks_set_self) simp_all

lemma ks_array_case:
  assumes "\<And>x. makes_schema (render x)"
  shows "keeps_schema s m (h_array_case deq render (HRef s) root)"
  unfolding h_array_case_def
  by (intro ks_rules ks_set_self ks_render_all assms ks_array_items) simp_all

lemma ks_finish: "keeps_schema s m (h_finish_schema root (HRef s))"
  unfolding h_finish_schema_def
  by (intro ks_rules ks_set_self) simp_all

lemma finish_result:
  "fst (h_finish_schema root schema h) = Return v \<Longrightarrow> v = schema"
  by (auto simp: h_finish_schema_def hbnd_cases hreturn_def split: outcome.splits if_splits)

subsection \<open>\<^verbatim>\<open>renderSchema\<close> only adds cells\<close>

lemma take_ext:
  "length h \<le> length h' \<Longrightarrow> take (length h) h' = h \<Longrightarrow> s \<le> length h \<Longrightarrow> take s h' = take s h"
  by (metis min.absorb1 take_take)

lemma take_le: "take s' h' = take s' h \<Longrightarrow> s \<le> s' \<Longrightarrow> take s h' = take s h"
  by (metis min.absorb1 take_take)

lemma rs_if:
  "(c \<Longrightarrow> returns_schema s f h) \<Longrightarrow> (\<not> c \<Longrightarrow> returns_schema s g h)
   \<Longrightarrow> returns_schema s (if c then f else g) h"
  by simp

lemma rs_keeps_return:
  assumes "keeps_schema s m f" and "schema_inv s m h"
  shows "returns_schema s (hbnd f (\<lambda>u. hreturn (HRef s))) h"
proof -
  from assms have 1: "length h \<le> length (snd (f h))" "take s (snd (f h)) = take s h"
    "schema_inv s m (snd (f h))"
    by (auto simp: keeps_schema_def)
  then show ?thesis
    by (cases "fst (f h)") (auto simp: returns_schema_def hbnd_cases hreturn_def)
qed

lemma rs_object:
  assumes "\<And>x. makes_schema (render x)"
  shows "returns_schema (length h)
           (hbnd (h_object_case n render ds (HRef (length h)) root) (\<lambda>u. hreturn (HRef (length h))))
           (h @ [CObj []])"
proof -
  let ?s = "length h"
  let ?h4 = "h @ [CObj [(''type'', HStr ''object''), (''properties'', HRef (Suc ?s))], CObj []]"
  let ?f = "h_object_members n render ds (HRef ?s) root"
  have eq: "h_object_case n render ds (HRef ?s) root (h @ [CObj []]) = ?f ?h4"
    by (simp add: h_object_case_def hbnd_def h_alloc_def h_cell_def h_write_def nth_append)
  have inv: "schema_inv ?s (Suc (Suc ?s)) ?h4"
    by (simp add: schema_inv_def props_newer_def newer_def h_lookup_def nth_append)
  from ks_object_members [where render = render and s = ?s and m = "Suc (Suc ?s)" and n = n
      and ds = ds and root = root, OF assms] inv
  have 1: "length ?h4 \<le> length (snd (?f ?h4))" "take ?s (snd (?f ?h4)) = take ?s ?h4"
    "schema_inv ?s (Suc (Suc ?s)) (snd (?f ?h4))"
    by (auto simp: keeps_schema_def)
  have split: "hbnd (h_object_case n render ds (HRef ?s) root) (\<lambda>u. hreturn (HRef ?s)) (h @ [CObj []])
      = (case fst (?f ?h4) of Return x \<Rightarrow> hreturn (HRef ?s) (snd (?f ?h4))
         | r \<Rightarrow> hstop r (snd (?f ?h4)))"
    by (simp add: hbnd_cases eq split: outcome.splits)
  from 1 show ?thesis
    unfolding returns_schema_def split
    by (cases "fst (?f ?h4)") (auto simp: hreturn_def)
qed

lemma rs_default:
  assumes "\<And>x. makes_schema (render x)" and "schema_inv s m h"
  shows "returns_schema s
           (hbnd (hread (\<lambda>h. h_to_key e)) (\<lambda>name.
            hbnd (hread (\<lambda>h. h_table_get h ds name)) (\<lambda>ref.
              if h_entry_truthy ref then
                hbnd (h_inherit_entry ref root) (\<lambda>combined. render combined)
              else hreturn (HRef s)))) h"
proof (cases "h_to_key e")
  case name: (Return name)
  show ?thesis
  proof (cases "h_table_get h ds name")
    case ref: (Return ref)
    show ?thesis
    proof (cases "h_entry_truthy ref")
      case False
      with name ref assms(2) show ?thesis
        by (auto simp: returns_schema_def hbnd_cases hreturn_def)
    next
      case True
      let ?h2 = "snd (h_inherit_entry ref root h)"
      from grows_inherit_entry [of ref root]
      have h2: "length h \<le> length ?h2" "take (length h) ?h2 = h"
        by (auto simp: grows_def)
      from assms(2) have s: "s \<le> length h" by (simp add: schema_inv_def)
      show ?thesis
      proof (cases "fst (h_inherit_entry ref root h)")
        case combined: (Return combined)
        let ?h3 = "snd (render combined ?h2)"
        from assms(1) [of combined]
        have h3: "length ?h2 \<le> length ?h3" "take (length ?h2) ?h3 = ?h2"
          and res: "\<forall>v. fst (render combined ?h2) = Return v \<longrightarrow>
                   (\<exists>s' m'. v = HRef s' \<and> length ?h2 \<le> s' \<and> schema_inv s' m' ?h3)"
          by (auto simp: makes_schema_def)
        from h2 h3 s have frame: "length h \<le> length ?h3" "take s ?h3 = take s h"
          by (auto intro: take_ext [of ?h2 ?h3, THEN trans] take_ext)
        from res h2 s have "\<forall>v. fst (render combined ?h2) = Return v \<longrightarrow>
                   (\<exists>s' m'. v = HRef s' \<and> s \<le> s' \<and> schema_inv s' m' ?h3)"
          by (meson le_trans)
        with frame name ref True combined show ?thesis
          by (simp add: returns_schema_def hbnd_cases)
      qed (use h2 s name ref True take_ext [OF h2 s] in
          \<open>simp_all add: returns_schema_def hbnd_cases\<close>)
    qed
  qed (use name in \<open>simp_all add: returns_schema_def hbnd_cases\<close>)
qed (simp_all add: returns_schema_def hbnd_cases)

lemma rs_switch:
  assumes "\<And>x. makes_schema (render x)"
  shows "returns_schema (length h) (h_switch n deq render ds (HRef (length h)) root e) (h @ [CObj []])"
proof -
  have inv: "schema_inv (length h) (Suc (length h)) (h @ [CObj []])"
    by (simp add: schema_inv_def newer_def h_lookup_def)
  show ?thesis
    unfolding h_switch_def
    by (intro rs_if rs_object assms rs_default [OF assms inv]
        rs_keeps_return [OF ks_primitive_case inv] rs_keeps_return [OF ks_enum_case inv]
        rs_keeps_return [OF ks_array_case inv])
qed

lemma rs_finish_bind:
  assumes "returns_schema s f h"
  shows "returns_schema s (hbnd f (\<lambda>schema'. h_finish_schema root schema')) h"
proof (cases "fst (f h)")
  case (Return v)
  let ?h1 = "snd (f h)"
  from assms Return obtain s' m' where v: "v = HRef s'" "s \<le> s'" "schema_inv s' m' ?h1"
    and h1: "length h \<le> length ?h1" "take s ?h1 = take s h"
    by (auto simp: returns_schema_def)
  let ?h2 = "snd (h_finish_schema root (HRef s') ?h1)"
  from ks_finish [of s' m' root] v(3)
  have h2: "length ?h1 \<le> length ?h2" "take s' ?h2 = take s' ?h1" "schema_inv s' m' ?h2"
    by (auto simp: keeps_schema_def)
  from take_le [OF h2(2) v(2)] h1 have frame: "length h \<le> length ?h2" "take s ?h2 = take s h"
    using h2(1) by auto
  have "v' = HRef s'" if "fst (h_finish_schema root (HRef s') ?h1) = Return v'" for v'
    using that by (rule finish_result)
  with frame v h2(3) Return show ?thesis
    by (auto simp: returns_schema_def hbnd_cases)
qed (use assms in \<open>auto simp: returns_schema_def hbnd_cases\<close>)

lemma makes_renderSchema: "makes_schema (h_renderSchema n deq ds root)"
proof (induction n arbitrary: root)
  case 0
  show ?case by (simp add: makes_schema_def)
next
  case (Suc n)
  show ?case
    unfolding makes_schema_def
  proof
    fix h
    let ?s = "length h" and ?h1 = "h @ [CObj []]"
    let ?f = "\<lambda>e. hbnd (h_switch (Suc n) deq (h_renderSchema n deq ds) ds (HRef ?s) root e)
                    (\<lambda>schema'. h_finish_schema root schema')"
    have body: "returns_schema ?s (?f e) ?h1" for e
      by (intro rs_finish_bind rs_switch Suc)
    have run: "h_renderSchema (Suc n) deq ds root h
        = (case h_get ?h1 root ''element'' of Return e \<Rightarrow> ?f e ?h1 | r \<Rightarrow> hstop r ?h1)"
      by (simp add: hbnd_def h_alloc_def hread_def split: outcome.splits)
    show "length h \<le> length (snd (h_renderSchema (Suc n) deq ds root h))
        \<and> take (length h) (snd (h_renderSchema (Suc n) deq ds root h)) = h
        \<and> (\<forall>v. fst (h_renderSchema (Suc n) deq ds root h) = Return v \<longrightarrow>
              (\<exists>s m. v = HRef s \<and> length h \<le> s
                 \<and> schema_inv s m (snd (h_renderSchema (Suc n) deq ds root h))))"
    proof (cases "h_get ?h1 root ''element''")
      case (Return e)
      show ?thesis
        by (simp only: run Return outcome.case)
          (use body [of e] in \<open>auto simp: returns_schema_def\<close>)
    qed (simp_all only: run outcome.case snd_hstop fst_hstop, simp_all)
  qed
qed

lemma grows_renderSchema: "grows (h_renderSchema n deq ds root)"
  using makes_renderSchema by (rule makes_schema_grows)

lemmas store_defs = h_inherit_def h_merge_def h_deep_copy_def h_inherit_field_def h_inherit_content_def
  h_unique_if_members_def h_uniqueMembers_def h_uniqueMembers_step_def hbnd_def hread_def
  hreturn_def hthrow_def hstop_def h_cell_def h_alloc_def h_write_def h_lookup_def h_nth_def

lemma inherit_example:
  "h_inherit (HRef 2) (HRef 5) example_store =
     (Return (HRef 8),
      example_store @
        [CObj [(''element'', HStr ''string'')],
         CArr [HRef 6, HRef 3],
         CObj [(''element'', HStr ''array''), (''content'', HRef 7)]])"
  by (simp add: store_defs example_store_def order_defs)

text \<open>The renderers on the example store: the array type at address 2 renders to a
  schema and to an example made of new cells.\<close>

lemmas render_defs = h_switch_def h_array_case_def h_array_items_def h_primitive_case_def
  h_finish_schema_def h_opt_get_def h_or_empty_def h_elements_def h_defaultValue_def

lemma schema_example:
  "h_renderSchema (Suc (Suc 0)) deq dataStructures (HRef 2) example_store =
     (Return (HRef 6),
      example_store @
        [CObj [(''type'', HStr ''array''), (''items'', HRef 8)],
         CArr [HRef 8],
         CObj [(''type'', HStr ''string'')]])"
  by (simp add: store_defs render_defs example_store_def)

lemma example_example:
  "h_renderExample (Suc (Suc 0)) dataStructures (HRef 2) example_store =
     (Return (HRef 6), example_store @ [CArr [HStr ''Hello, world!'']])"
  by (simp add: store_defs render_defs example_store_def)

text \<open>
  Claim C9, as amended. \<^verbatim>\<open>inherit\<close> never mutates \<^verbatim>\<open>base\<close>, \<^verbatim>\<open>derived\<close> or the symbol
  table: whatever the store \<open>h\<close> and the arguments, every cell of \<open>h\<close> is unchanged in
  the store the call leaves, also when it throws. The element it returns is a cell made
  by the call, and so is every object or array that this cell refers to directly (its
  \<^verbatim>\<open>meta\<close>, \<^verbatim>\<open>attributes\<close> and \<^verbatim>\<open>content\<close>): none of them is a container of
  \<^verbatim>\<open>derived\<close>. \<^verbatim>\<open>renderSchema\<close> and \<^verbatim>\<open>renderExample\<close> leave every cell of \<open>h\<close>
  unchanged as well: all their writes go to cells that they have made. (What the result
  of \<^verbatim>\<open>inherit\<close> shares with \<^verbatim>\<open>derived\<close> is the subject of the counterexample below: the
  entries appended to \<^verbatim>\<open>content\<close>, and the values copied into \<^verbatim>\<open>meta\<close> and
  \<^verbatim>\<open>attributes\<close>, are \<^verbatim>\<open>derived\<close>'s own.)
\<close>

theorem no_mutation_C9:
  "length h \<le> length (snd (h_inherit base derived h))
   \<and> take (length h) (snd (h_inherit base derived h)) = h
   \<and> (\<forall>a kvs k b. fst (h_inherit base derived h) = Return (HRef a)
        \<longrightarrow> length h \<le> a
            \<and> (snd (h_inherit base derived h) ! a = CObj kvs \<longrightarrow> (k, HRef b) \<in> set kvs
                 \<longrightarrow> length h \<le> b))
   \<and> length h \<le> length (snd (h_renderSchema n deq dataStructures root h))
   \<and> take (length h) (snd (h_renderSchema n deq dataStructures root h)) = h
   \<and> length h \<le> length (snd (h_renderExample n dataStructures root h))
   \<and> take (length h) (snd (h_renderExample n dataStructures root h)) = h"
proof -
  have fresh: "length h \<le> a
      \<and> (snd (h_inherit base derived h) ! a = CObj kvs \<longrightarrow> (k, HRef b) \<in> set kvs
           \<longrightarrow> length h \<le> b)"
    if "fst (h_inherit base derived h) = Return (HRef a)" for a kvs k b
    using inherit_inv [of h base derived] that by (auto simp: owned_def)
  have schema: "grows (h_renderSchema n deq dataStructures root)"
    and example: "grows (h_renderExample n dataStructures root)"
    by (rule grows_renderSchema, rule grows_renderExample)
  show ?thesis
    using inherit_inv [of h base derived] fresh schema example
    unfolding grows_def by blast
qed

theorem no_mutation_C9_witness:
  "fst (h_inherit (HRef 2) (HRef 5) example_store) = Return (HRef 8)
   \<and> length example_store \<le> 8
   \<and> take (length example_store) (snd (h_inherit (HRef 2) (HRef 5) example_store))
       = example_store
   \<and> fst (h_renderSchema (Suc (Suc 0)) (\<lambda>h l r. Return True) HUndefined (HRef 2) example_store)
       = Return (HRef 6)
   \<and> take (length example_store)
        (snd (h_renderSchema (Suc (Suc 0)) (\<lambda>h l r. Return True) HUndefined (HRef 2) example_store))
       = example_store
   \<and> fst (h_renderExample (Suc (Suc 0)) HUndefined (HRef 2) example_store) = Return (HRef 6)
   \<and> take (length example_store)
        (snd (h_renderExample (Suc (Suc 0)) HUndefined (HRef 2) example_store))
       = example_store"
proof -
  have r: "fst (h_inherit (HRef 2) (HRef 5) example_store) = Return (HRef 8)"
    by (simp add: inherit_example)
  have s: "fst (h_renderSchema (Suc (Suc 0)) (\<lambda>h l r. Return True) HUndefined (HRef 2) example_store)
       = Return (HRef 6)"
    by (simp only: schema_example fst_conv)
  have e: "fst (h_renderExample (Suc (Suc 0)) HUndefined (HRef 2) example_store) = Return (HRef 6)"
    by (simp only: example_example fst_conv)
  from no_mutation_C9 [where h = example_store and base = "HRef 2" and derived = "HRef 5"
      and n = "Suc (Suc 0)" and deq = "\<lambda>h l r. Return True" and dataStructures = HUndefined
      and root = "HRef 2"] r s e
  show ?thesis by blast
qed

text \<open>
  The claim as stated (no part of the result is aliased to \<^verbatim>\<open>derived\<close>'s child
  elements) fails: \<^verbatim>\<open>combined.content.push(item)\<close> appends the child itself. On the
  example store the content of the result holds the copy of \<^verbatim>\<open>base\<close>'s child (address
  6) and, next to it, the reference 3: the very child of \<^verbatim>\<open>derived\<close>.
\<close>

theorem shared_children_C9_counterexample:
  "h_get example_store (HRef 5) ''content'' = Return (HRef 4)
   \<and> h_array_from example_store (HRef 4) = Return [HRef 3]
   \<and> fst (h_inherit (HRef 2) (HRef 5) example_store) = Return (HRef 8)
   \<and> h_get (snd (h_inherit (HRef 2) (HRef 5) example_store)) (HRef 8) ''content''
       = Return (HRef 7)
   \<and> h_array_from (snd (h_inherit (HRef 2) (HRef 5) example_store)) (HRef 7)
       = Return [HRef 6, HRef 3]"
  by (simp add: inherit_example) (simp add: example_store_def h_cell_def h_lookup_def)

end
